(* ===== verification/Plugin_Prelude.thy ===== *)
theory Plugin_Prelude
  imports Main "HOL-Library.Word"
begin

text \<open>
  Shared vocabulary of the sudo plugin development. The sources manipulate
  byte strings (\<open>Vec<u8>\<close>, \<open>&[u8]\<close>) and UTF-8 strings (\<open>&str\<close>,
  \<open>String\<close>); both are modelled as \<^typ>\<open>char list\<close>, whose elements are
  exactly the 256 byte values. The error values of the crate's \<open>errors\<close>
  module and of the standard-library parsers it calls are datatypes here, and a
  Rust panic is a distinguished error value that the \<open>Result\<close> combinators
  (\<open>ok\<close>, \<open>unwrap_or\<close>) do not catch. The generic list functions
  \<^term>\<open>position\<close> (\<open>Iterator::position\<close>) and \<^term>\<open>split_on\<close>
  (\<open>str::split\<close> on one character) are defined with the lemmas the
  component theories share.
\<close>

named_theorems rust_std_simps "evaluation rules of the modelled standard-library functions"

type_synonym bytes = "char list"

subsection \<open>Errors\<close>

text \<open>
  The kinds of \<open>ParseIntError\<close>, \<open>ParseBoolError\<close> and \<open>AddrParseError\<close>
  that the coercions produce.
\<close>

datatype parse_error =
    Int_empty
  | Int_invalid_digit
  | Int_pos_overflow
  | Bool_invalid
  | Addr_invalid

text \<open>
  The error of the crate's \<open>Result\<close> (built with \<open>error_chain\<close>): the two
  messages \<open>OptionMap::get\<close> attaches, carrying the key, and the underlying
  parse error of a coercion. \<open>Panic\<close> is not a \<open>Result\<close> error: it is the
  model of unwinding, and it passes through every combinator unchanged.
\<close>

datatype error =
    Missing_option string    \<comment> \<open>"option k wasn't provided to the plugin"\<close>
  | Unparsable_option string \<comment> \<open>"option k couldn't be parsed"\<close>
  | Parse_failed parse_error
  | Panic string

type_synonym 'a result = "error + 'a"

subsection \<open>The question-mark operator and the \<open>Result\<close> combinators\<close>

definition bind_res :: "'e + 'a \<Rightarrow> ('a \<Rightarrow> 'e + 'b) \<Rightarrow> 'e + 'b" where
  "bind_res r f = (case r of Inl e \<Rightarrow> Inl e | Inr x \<Rightarrow> f x)"

text \<open>
  \<open>Result::ok\<close> and \<open>Result::unwrap_or\<close>: an error becomes \<open>None\<close> or the
  default, a panic keeps unwinding.
\<close>

fun res_ok :: "'a result \<Rightarrow> 'a option result" where
  "res_ok (Inr x) = Inr (Some x)"
| "res_ok (Inl (Panic m)) = Inl (Panic m)"
| "res_ok (Inl e) = Inr None"

fun res_unwrap_or :: "'a \<Rightarrow> 'a result \<Rightarrow> 'a result" where
  "res_unwrap_or d (Inr x) = Inr x"
| "res_unwrap_or d (Inl (Panic m)) = Inl (Panic m)"
| "res_unwrap_or d (Inl e) = Inr d"

definition is_panic :: "'a result \<Rightarrow> bool" where
  "is_panic r \<longleftrightarrow> (\<exists>m. r = Inl (Panic m))"

subsection \<open>\<open>Iterator::position\<close>\<close>

fun position :: "('a \<Rightarrow> bool) \<Rightarrow> 'a list \<Rightarrow> nat option" where
  "position P [] = None"
| "position P (x # xs) = (if P x then Some 0 else map_option Suc (position P xs))"

subsection \<open>\<open>str::split\<close> on one character\<close>

text \<open>
  Rust's \<open>split(c)\<close> yields the maximal runs between occurrences of \<open>c\<close>,
  empty runs included: \<open>"".split(c)\<close> yields one empty string and
  \<open>"a,,b".split(',')\<close> yields \<open>"a"\<close>, \<open>""\<close>, \<open>"b"\<close>.
\<close>

fun split_on :: "'a \<Rightarrow> 'a list \<Rightarrow> 'a list list" where
  "split_on c [] = [[]]"
| "split_on c (x # xs) =
     (if x = c then [] # split_on c xs
      else (case split_on c xs of seg # segs \<Rightarrow> (x # seg) # segs | [] \<Rightarrow> [[x]]))"

text \<open>Joining segments with the separator, the inverse of the split.\<close>

fun join_with :: "'a \<Rightarrow> 'a list list \<Rightarrow> 'a list" where
  "join_with c [] = []"
| "join_with c [s] = s"
| "join_with c (s # t # ss) = s @ c # join_with c (t # ss)"

subsection \<open>Lemmas on the combinators\<close>

lemma bind_res_Inl [simp]: "bind_res (Inl e) f = Inl e"
  and bind_res_Inr [simp]: "bind_res (Inr x) f = f x"
  by (simp_all add: bind_res_def)

lemma bind_res_eq_Inr_iff:
  "bind_res r f = Inr y \<longleftrightarrow> (\<exists>x. r = Inr x \<and> f x = Inr y)"
  by (cases r) simp_all

lemma bind_res_eq_Inl_iff:
  "bind_res r f = Inl e \<longleftrightarrow> r = Inl e \<or> (\<exists>x. r = Inr x \<and> f x = Inl e)"
  by (cases r) simp_all

lemma is_panic_simps [simp]:
  "\<not> is_panic (Inr x)"
  "is_panic (Inl e) \<longleftrightarrow> (\<exists>m. e = Panic m)"
  by (auto simp: is_panic_def)

lemma res_ok_not_panic [simp]:
  "\<not> is_panic r \<Longrightarrow> res_ok r = Inr (case r of Inr x \<Rightarrow> Some x | Inl _ \<Rightarrow> None)"
proof (cases r)
  case (Inl e)
  then show "\<not> is_panic r \<Longrightarrow> ?thesis" by (cases e) auto
qed simp

lemma res_unwrap_or_not_panic [simp]:
  "\<not> is_panic r \<Longrightarrow> res_unwrap_or d r = Inr (case r of Inr x \<Rightarrow> x | Inl _ \<Rightarrow> d)"
proof (cases r)
  case (Inl e)
  then show "\<not> is_panic r \<Longrightarrow> ?thesis" by (cases e) auto
qed simp

lemma res_ok_panic [simp]: "res_ok (Inl (Panic m)) = Inl (Panic m)"
  and res_unwrap_or_panic [simp]: "res_unwrap_or d (Inl (Panic m)) = Inl (Panic m)"
  by simp_all

lemma res_ok_Inr_iff:
  "res_ok r = Inr y \<longleftrightarrow> \<not> is_panic r \<and> y = (case r of Inr x \<Rightarrow> Some x | Inl _ \<Rightarrow> None)"
  by (cases "is_panic r") (auto simp: is_panic_def)

lemma res_unwrap_or_Inr_iff:
  "res_unwrap_or d r = Inr y \<longleftrightarrow> \<not> is_panic r \<and> y = (case r of Inr x \<Rightarrow> x | Inl _ \<Rightarrow> d)"
  by (cases "is_panic r") (auto simp: is_panic_def)

subsection \<open>Lemmas on positions and splitting\<close>

lemma position_None_iff [simp]: "position P xs = None \<longleftrightarrow> (\<forall>x \<in> set xs. \<not> P x)"
  by (induction xs) auto

lemma position_SomeD:
  assumes "position P xs = Some i"
  shows "i < length xs \<and> P (xs ! i) \<and> (\<forall>j < i. \<not> P (xs ! j))"
  using assms
proof (induction xs arbitrary: i)
  case Nil
  then show ?case by simp
next
  case (Cons x xs)
  show ?case
  proof (cases "P x")
    case True
    with Cons.prems show ?thesis by simp
  next
    case False
    with Cons.prems obtain i' where "position P xs = Some i'" and i: "i = Suc i'"
      by auto
    with Cons.IH False show ?thesis
      by (auto simp: less_Suc_eq_0_disj)
  qed
qed

lemma position_split:
  "position P xs = Some i \<Longrightarrow>
     xs = take i xs @ xs ! i # drop (Suc i) xs \<and> P (xs ! i) \<and> (\<forall>x \<in> set (take i xs). \<not> P x)"
  by (drule position_SomeD) (auto simp: id_take_nth_drop in_set_conv_nth)

lemma position_append_hit:
  "\<forall>x \<in> set xs. \<not> P x \<Longrightarrow> P y \<Longrightarrow> position P (xs @ y # ys) = Some (length xs)"
  by (induction xs) auto

lemma split_on_not_Nil [simp]: "split_on c xs \<noteq> []"
  by (induction xs) (auto split: list.split)

lemma split_on_segments: "seg \<in> set (split_on c xs) \<Longrightarrow> c \<notin> set seg"
proof (induction xs arbitrary: seg)
  case Nil
  then show ?case by simp
next
  case (Cons x xs)
  then show ?case
    by (auto split: if_splits list.splits)
qed

lemma join_with_Cons: "join_with c (s # ss) = (if ss = [] then s else s @ c # join_with c ss)"
  by (cases ss) auto

lemma join_with_split_on [simp]: "join_with c (split_on c xs) = xs"
  by (induction xs) (auto simp: join_with_Cons split: list.split)

lemma split_on_append_sep:
  "c \<notin> set s \<Longrightarrow> split_on c (s @ c # rest) = s # split_on c rest"
  by (induction s) auto

lemma split_on_no_sep: "c \<notin> set s \<Longrightarrow> split_on c s = [s]"
  by (induction s) auto

lemma split_on_join_with:
  "segs \<noteq> [] \<Longrightarrow> \<forall>s \<in> set segs. c \<notin> set s \<Longrightarrow> split_on c (join_with c segs) = segs"
  by (induction c segs rule: join_with.induct) (auto simp: split_on_append_sep split_on_no_sep)

lemma split_on_join_with_snoc:
  "segs \<noteq> [] \<Longrightarrow> \<forall>s \<in> set segs. c \<notin> set s \<Longrightarrow> split_on c (join_with c segs @ [c]) = segs @ [[]]"
  by (induction c segs rule: join_with.induct) (auto simp: split_on_append_sep)

end
