(* ===== verification/Utf8.thy ===== *)
theory Utf8
  imports Plugin_Prelude
begin

text \<open>
  \<open>OptionMap::get_str\<close> turns stored bytes into a \<open>&str\<close> with
  \<open>str::from_utf8\<close>, which succeeds exactly on well-formed UTF-8. The
  standard library checks one encoded character at a time: the first byte fixes
  the width (the table \<open>UTF8_CHAR_WIDTH\<close>), the second byte is checked
  against a range that depends on the first (this excludes overlong encodings,
  surrogates and values above U+10FFFF), and the remaining bytes must be
  continuation bytes. \<^term>\<open>utf8_valid\<close> follows that structure.
\<close>

definition utf8_char_width :: "char \<Rightarrow> nat" where
  "utf8_char_width b =
     (let n = (of_char b :: nat) in
      if n < 0x80 then 1
      else if n < 0xC2 then 0
      else if n < 0xE0 then 2
      else if n < 0xF0 then 3
      else if n < 0xF5 then 4
      else 0)"

definition utf8_cont :: "char \<Rightarrow> bool" where
  "utf8_cont c \<longleftrightarrow> 0x80 \<le> (of_char c :: nat) \<and> (of_char c :: nat) \<le> 0xBF"

text \<open>The admissible second bytes, keyed by the first byte (Unicode Table 3-7).\<close>

definition utf8_second_ok :: "char \<Rightarrow> char \<Rightarrow> bool" where
  "utf8_second_ok a b =
     (let n = (of_char a :: nat); m = (of_char b :: nat) in
      if n = 0xE0 then 0xA0 \<le> m \<and> m \<le> 0xBF
      else if n = 0xED then 0x80 \<le> m \<and> m \<le> 0x9F
      else if n = 0xF0 then 0x90 \<le> m \<and> m \<le> 0xBF
      else if n = 0xF4 then 0x80 \<le> m \<and> m \<le> 0x8F
      else 0x80 \<le> m \<and> m \<le> 0xBF)"

function utf8_valid :: "bytes \<Rightarrow> bool" where
  "utf8_valid [] = True"
| "utf8_valid (b # bs) =
     (let w = utf8_char_width b in
      if w = 1 then utf8_valid bs
      else if w = 0 then False
      else w - 1 \<le> length bs \<and> utf8_second_ok b (hd bs)
           \<and> (\<forall>c \<in> set (take (w - 2) (tl bs)). utf8_cont c)
           \<and> utf8_valid (drop (w - 1) bs))"
  by pat_completeness auto
termination
  by (relation "measure length") auto

lemma utf8_char_width_cases: "utf8_char_width b \<in> {0, 1, 2, 3, 4}"
  by (simp add: utf8_char_width_def Let_def)

lemma utf8_char_width_ascii [simp]:
  "(of_char b :: nat) < 0x80 \<Longrightarrow> utf8_char_width b = 1"
  by (simp add: utf8_char_width_def)

text \<open>ASCII text is valid UTF-8: all the keys of the settings schema are.\<close>

lemma utf8_valid_ascii: "\<forall>c \<in> set s. (of_char c :: nat) < 0x80 \<Longrightarrow> utf8_valid s"
  by (induction s) auto

text \<open>Validity is closed under concatenation: no character straddles the seam.\<close>

lemma utf8_valid_append:
  "utf8_valid xs \<Longrightarrow> utf8_valid ys \<Longrightarrow> utf8_valid (xs @ ys)"
proof (induction xs rule: utf8_valid.induct)
  case 1
  then show ?case by simp
next
  case (2 b bs)
  let ?w = "utf8_char_width b"
  show ?case
  proof (cases "?w = 1")
    case True
    with "2.IH"(1) "2.prems" show ?thesis by simp
  next
    case False
    with "2.prems"(1) have w: "?w \<noteq> 0" "?w - 1 \<le> length bs" and
      rest: "utf8_valid (drop (?w - 1) bs)"
      by (simp_all add: Let_def split: if_splits)
    from False w have "bs \<noteq> []" using utf8_char_width_cases [of b] by auto
    then have hd: "hd (bs @ ys) = hd bs" and tl: "tl (bs @ ys) = tl bs @ ys" by simp_all
    from w have tk: "take (?w - 2) (tl bs @ ys) = take (?w - 2) (tl bs)"
      by simp
    from w have dr: "drop (?w - 1) (bs @ ys) = drop (?w - 1) bs @ ys" by simp
    from "2.IH"(2) [OF refl False w(1) rest "2.prems"(2)] have
      "utf8_valid (drop (?w - 1) bs @ ys)" .
    with "2.prems"(1) False w hd tl tk dr show ?thesis
      by (simp add: Let_def del: take_append drop_append)
  qed
qed

end
