(* ===== verification/Option_Map.thy ===== *)
theory Option_Map
  imports Utf8
begin

text \<open>
  The model of \<open>src/sudo_plugin/src/plugin/option_map.rs\<close>. The host hands
  the plugin a pointer to an array of pointers to NUL-terminated strings, ended
  by a null pointer. Host memory is modelled by what can be read from each
  pointer: a string pointer is null or the bytes from it to the end of its
  allocation, an array pointer is null or the pointers from it to the end of
  the array's allocation. Reading past an allocation (no NUL, no sentinel) is
  undefined behaviour, the value \<^term>\<open>None\<close> of \<^term>\<open>option_map_new\<close>.
  The map is a partial function on byte strings, built by \<open>insert\<close> in array
  order; the lemmas show that it is \<^term>\<open>map_of\<close> of the reversed entry list
  (last write wins), and give the three accessors on every branch.
\<close>

subsection \<open>Host memory\<close>

datatype cstr_ptr = Null_ptr | Cstr_ptr bytes

datatype cstr_array_ptr = Null_array | Array_ptr "cstr_ptr list"

definition NUL :: char where
  "NUL = CHR 0x00"

text \<open>\<open>CStr::from_ptr(p).to_bytes()\<close>: the bytes before the first NUL.\<close>

definition cstr_to_bytes :: "bytes \<Rightarrow> bytes option" where
  "cstr_to_bytes buf =
     (if NUL \<in> set buf then Some (takeWhile (\<lambda>b. b \<noteq> NUL) buf) else None)"

subsection \<open>The map and its construction\<close>

definition OPTIONS_SEPARATOR :: char where
  "OPTIONS_SEPARATOR = CHR ''=''"

datatype option_map = OptionMap "bytes \<rightharpoonup> bytes"

fun option_map_entries :: "option_map \<Rightarrow> bytes \<rightharpoonup> bytes" where
  "option_map_entries (OptionMap m) = m"

definition option_map_default :: option_map where
  "option_map_default = OptionMap Map.empty"

text \<open>One entry: split at the first \<open>=\<close>, or map the token to itself.\<close>

definition parse_option :: "bytes \<Rightarrow> bytes \<times> bytes" where
  "parse_option bytes =
     (case position (\<lambda>b. b = OPTIONS_SEPARATOR) bytes of
        Some s \<Rightarrow> (take s bytes, drop (s + 1) bytes)
      | None \<Rightarrow> (bytes, bytes))"

text \<open>
  The \<open>while !(*ptr).is_null()\<close> loop: each iteration reads the current
  pointer, copies its string, inserts the pair and advances by one.
\<close>

fun new_loop :: "(bytes \<rightharpoonup> bytes) \<Rightarrow> cstr_ptr list \<Rightarrow> (bytes \<rightharpoonup> bytes) option" where
  "new_loop m [] = None"
| "new_loop m (Null_ptr # ptrs) = Some m"
| "new_loop m (Cstr_ptr buf # ptrs) =
     (case cstr_to_bytes buf of
        None \<Rightarrow> None
      | Some bytes \<Rightarrow> (let (k, v) = parse_option bytes in new_loop (m(k \<mapsto> v)) ptrs))"

definition option_map_new :: "cstr_array_ptr \<Rightarrow> option_map option" where
  "option_map_new ptr =
     (case ptr of
        Null_array \<Rightarrow> Some option_map_default
      | Array_ptr ptrs \<Rightarrow> map_option OptionMap (new_loop Map.empty ptrs))"

subsection \<open>Accessors\<close>

definition get_bytes :: "option_map \<Rightarrow> bytes \<Rightarrow> bytes option" where
  "get_bytes om k = option_map_entries om k"

definition get_str :: "option_map \<Rightarrow> string \<Rightarrow> string option" where
  "get_str om k = Option.bind (get_bytes om k) (\<lambda>b. if utf8_valid b then Some b else None)"

text \<open>
  \<open>OptionMap::get\<close>, with the coercion \<open>FromSudoOption::from_sudo_option\<close>
  of the target type passed explicitly (Rust resolves it statically from the
  type). \<open>.ok()\<close> discards the coercion's error; a panic in the coercion
  unwinds through it.
\<close>

definition get :: "(string \<Rightarrow> 'a result) \<Rightarrow> option_map \<Rightarrow> string \<Rightarrow> 'a result" where
  "get from_sudo_option om k =
     (case get_str om k of
        None \<Rightarrow> Inl (Missing_option k)
      | Some v \<Rightarrow>
          (case from_sudo_option v of
             Inr x \<Rightarrow> Inr x
           | Inl (Panic m) \<Rightarrow> Inl (Panic m)
           | Inl _ \<Rightarrow> Inl (Unparsable_option k)))"

subsection \<open>The abstract view: the strings before the sentinel\<close>

text \<open>
  \<^term>\<open>sentinel_prefix\<close> reads the host array as the contract describes it:
  the strings up to the null sentinel, or \<^term>\<open>None\<close> where that reading
  leaves an allocation. \<^term>\<open>host_array\<close> lays a list of NUL-free strings
  out as the host does.
\<close>

fun sentinel_prefix :: "cstr_ptr list \<Rightarrow> bytes list option" where
  "sentinel_prefix [] = None"
| "sentinel_prefix (Null_ptr # ptrs) = Some []"
| "sentinel_prefix (Cstr_ptr buf # ptrs) =
     (case cstr_to_bytes buf of
        None \<Rightarrow> None
      | Some bytes \<Rightarrow> map_option (Cons bytes) (sentinel_prefix ptrs))"

definition host_array :: "bytes list \<Rightarrow> cstr_array_ptr" where
  "host_array opts = Array_ptr (map (\<lambda>s. Cstr_ptr (s @ [NUL])) opts @ [Null_ptr])"

definition options_abs :: "bytes list \<Rightarrow> bytes \<rightharpoonup> bytes" where
  "options_abs opts = map_of (rev (map parse_option opts))"

subsection \<open>Lemmas\<close>

lemma cstr_to_bytes_terminated [simp]:
  "NUL \<notin> set s \<Longrightarrow> cstr_to_bytes (s @ NUL # rest) = Some s"
  by (induction s) (auto simp: cstr_to_bytes_def)

lemma sentinel_prefix_host [simp]:
  "\<forall>s \<in> set opts. NUL \<notin> set s \<Longrightarrow>
     sentinel_prefix (map (\<lambda>s. Cstr_ptr (s @ [NUL])) opts @ Null_ptr # rest) = Some opts"
  by (induction opts) auto

lemma new_loop_abs:
  "new_loop m ptrs = map_option (\<lambda>opts. m ++ map_of (rev (map parse_option opts))) (sentinel_prefix ptrs)"
proof (induction m ptrs rule: new_loop.induct)
  case (3 m buf ptrs)
  show ?case
  proof (cases "cstr_to_bytes buf")
    case (Some bytes)
    obtain k v where kv: "parse_option bytes = (k, v)" by fastforce
    have "m(k \<mapsto> v) ++ map_of (rev (map parse_option opts)) =
          m ++ map_of (rev (map parse_option (bytes # opts)))" for opts
      by (simp add: kv map_add_upd_left fun_eq_iff map_add_def split: option.split)
    moreover note "3.IH" [OF Some refl kv [symmetric]]
    ultimately show ?thesis using Some kv by (simp add: option.map_comp comp_def fun_upd_def)
  qed simp
qed simp_all

lemma option_map_new_Array:
  "option_map_new (Array_ptr ptrs) = map_option (OptionMap \<circ> options_abs) (sentinel_prefix ptrs)"
  by (simp add: option_map_new_def new_loop_abs options_abs_def option.map_comp comp_def)

lemma get_bytes_OptionMap [simp]: "get_bytes (OptionMap m) k = m k"
  by (simp add: get_bytes_def)

lemma map_of_rev_last:
  "\<forall>p \<in> set ys. fst p \<noteq> k \<Longrightarrow> map_of (rev (xs @ (k, v) # ys)) k = Some v"
proof -
  assume "\<forall>p \<in> set ys. fst p \<noteq> k"
  then have "map_of (rev ys) k = None" by (auto simp: map_of_eq_None_iff)
  then show ?thesis by (simp add: map_add_def)
qed

lemma parse_option_sep:
  assumes "OPTIONS_SEPARATOR \<notin> set k"
  shows "parse_option (k @ OPTIONS_SEPARATOR # v) = (k, v)"
proof -
  have "position (\<lambda>b. b = OPTIONS_SEPARATOR) (k @ OPTIONS_SEPARATOR # v) = Some (length k)"
    using assms by (intro position_append_hit) auto
  then show ?thesis by (simp add: parse_option_def)
qed

lemma parse_option_no_sep:
  assumes "OPTIONS_SEPARATOR \<notin> set tok"
  shows "parse_option tok = (tok, tok)"
proof -
  have none: "position (\<lambda>b. b = OPTIONS_SEPARATOR) tok = None"
    using assms by auto
  show ?thesis unfolding parse_option_def none by simp
qed

lemma option_map_new_host:
  "\<forall>s \<in> set opts. NUL \<notin> set s \<Longrightarrow>
     option_map_new (host_array opts) = Some (OptionMap (options_abs opts))"
  by (simp add: option_map_new_Array host_array_def del: map_append)

lemma options_abs_last:
  assumes "OPTIONS_SEPARATOR \<notin> set k" and "\<forall>s \<in> set ys. fst (parse_option s) \<noteq> k"
  shows "options_abs (xs @ (k @ OPTIONS_SEPARATOR # v) # ys) k = Some v"
proof -
  have "\<forall>p \<in> set (map parse_option ys). fst p \<noteq> k" using assms(2) by auto
  then show ?thesis
    using map_of_rev_last [of "map parse_option ys" k "map parse_option xs" v] assms(1)
    by (simp add: options_abs_def parse_option_sep)
qed

lemma get_Inr_iff:
  "get from_sudo_option om k = Inr x \<longleftrightarrow> (\<exists>v. get_str om k = Some v \<and> from_sudo_option v = Inr x)"
  by (auto simp: get_def split: option.split sum.split error.split)

lemma get_str_utf8 [simp]: "pred_option utf8_valid (get_str om k)"
  by (cases "get_bytes om k") (simp_all add: get_str_def)

lemmas option_map_simps = option_map_new_Array options_abs_def host_array_def
  parse_option_sep parse_option_no_sep

subsection \<open>Properties\<close>

text \<open>
  C1 (refinement). On an array laid out by the host contract, construction is
  defined and yields the map of the parsed entries in which a later entry wins:
  \<^term>\<open>option_map_new\<close> implements \<^term>\<open>options_abs\<close>.
\<close>

theorem option_map_new_refines:
  "\<forall>s \<in> set opts. NUL \<notin> set s \<Longrightarrow>
     option_map_new (host_array opts) = Some (OptionMap (options_abs opts))"
  by (rule option_map_new_host)

text \<open>
  C2 (functional). Duplicate keys: the value stored under a key is the one of
  its last occurrence in the array, whatever came before it.
\<close>

theorem get_bytes_last_write_wins:
  assumes "\<forall>s \<in> set (xs @ (k @ OPTIONS_SEPARATOR # v) # ys). NUL \<notin> set s"
    and "OPTIONS_SEPARATOR \<notin> set k"
    and "\<forall>s \<in> set ys. fst (parse_option s) \<noteq> k"
  shows "Option.bind (option_map_new (host_array (xs @ (k @ OPTIONS_SEPARATOR # v) # ys)))
           (\<lambda>om. get_bytes om k) = Some v"
proof -
  have "options_abs (xs @ (k @ OPTIONS_SEPARATOR # v) # ys) k = Some v"
    using assms(2,3) by (rule options_abs_last)
  with assms(1) show ?thesis by (simp add: option_map_new_host)
qed

text \<open>
  C3 (functional). A bare token without \<open>=\<close> maps to itself, so a flag
  passed as \<open>noexec\<close> is found under its own name with itself as value.
\<close>

theorem get_bytes_bare_token:
  assumes "\<forall>s \<in> set (xs @ tok # ys). NUL \<notin> set s"
    and "OPTIONS_SEPARATOR \<notin> set tok"
    and "\<forall>s \<in> set ys. fst (parse_option s) \<noteq> tok"
  shows "Option.bind (option_map_new (host_array (xs @ tok # ys))) (\<lambda>om. get_bytes om tok) = Some tok"
proof -
  have "\<forall>p \<in> set (map parse_option ys). fst p \<noteq> tok" using assms(3) by auto
  then have "options_abs (xs @ tok # ys) tok = Some tok"
    using map_of_rev_last [of "map parse_option ys" tok "map parse_option xs" tok] assms(2)
    by (simp add: options_abs_def parse_option_no_sep)
  with assms(1) show ?thesis by (simp add: option_map_new_host)
qed

text \<open>
  C4 (safety). The sentinel is a precondition the code cannot check: on an
  array with no null entry the walk runs off the allocation (undefined
  behaviour), while whatever follows the sentinel is never read.
\<close>

theorem option_map_new_needs_sentinel:
  "Null_ptr \<notin> set ptrs \<Longrightarrow> option_map_new (Array_ptr ptrs) = None"
proof -
  assume "Null_ptr \<notin> set ptrs"
  then have "sentinel_prefix ptrs = None"
    by (induction ptrs rule: sentinel_prefix.induct) (auto split: option.split)
  then show ?thesis by (simp add: option_map_new_Array)
qed

text \<open>
  C5 (roundtrip). An entry containing \<open>=\<close> is split at its first \<open>=\<close>:
  parsing yields \<open>(k, v)\<close> exactly when the entry is \<open>k = v\<close> printed with
  a key free of \<open>=\<close>.
\<close>

theorem parse_option_roundtrip:
  assumes "OPTIONS_SEPARATOR \<in> set bytes"
  shows "parse_option bytes = (k, v) \<longleftrightarrow>
           bytes = k @ OPTIONS_SEPARATOR # v \<and> OPTIONS_SEPARATOR \<notin> set k"
proof
  assume parsed: "parse_option bytes = (k, v)"
  from assms obtain i where pos: "position (\<lambda>b. b = OPTIONS_SEPARATOR) bytes = Some i"
    by (cases "position (\<lambda>b. b = OPTIONS_SEPARATOR) bytes") auto
  then have split: "bytes = take i bytes @ bytes ! i # drop (Suc i) bytes"
    and sep: "bytes ! i = OPTIONS_SEPARATOR"
    and key: "\<forall>x \<in> set (take i bytes). x \<noteq> OPTIONS_SEPARATOR"
    using position_split [OF pos] by auto
  from parsed pos have "k = take i bytes" "v = drop (Suc i) bytes"
    by (auto simp: parse_option_def)
  with split sep key show "bytes = k @ OPTIONS_SEPARATOR # v \<and> OPTIONS_SEPARATOR \<notin> set k"
    by auto
next
  assume "bytes = k @ OPTIONS_SEPARATOR # v \<and> OPTIONS_SEPARATOR \<notin> set k"
  then show "parse_option bytes = (k, v)" by (simp add: parse_option_sep)
qed

text \<open>
  C7 (error). Every error of \<open>get\<close> names the key it was asked for: the key
  was absent or not text (\<open>Missing_option k\<close>), or its value did not parse
  (\<open>Unparsable_option k\<close>); the only other way out is a panic of the coercion.
\<close>

theorem get_error_names_key:
  "get from_sudo_option om k = Inl e \<Longrightarrow>
     (e = Missing_option k \<and> get_str om k = None)
   \<or> (e = Unparsable_option k \<and> (\<exists>v pe. get_str om k = Some v \<and> from_sudo_option v = Inl pe \<and> \<not> is_panic (Inl pe)))
   \<or> (\<exists>m v. e = Panic m \<and> get_str om k = Some v \<and> from_sudo_option v = Inl (Panic m))"
  by (auto simp: get_def split: option.splits sum.splits error.splits)


subsection \<open>Witnesses\<close>

text \<open>The unit test \<open>new_parses_simple_keys\<close> of \<open>option_map.rs\<close>.\<close>

lemma new_parses_simple_keys:
  "Option.bind (option_map_new (Array_ptr
      [Cstr_ptr (''key1=value1'' @ [NUL]), Cstr_ptr (''key2=value2'' @ [NUL]), Null_ptr]))
     (\<lambda>om. Some (get_str om ''key1'', get_str om ''key2'', get_str om ''key3''))
   = Some (Some ''value1'', Some ''value2'', None)"
  by (simp add: option_map_new_Array options_abs_def cstr_to_bytes_def parse_option_def
      NUL_def OPTIONS_SEPARATOR_def get_str_def)

lemma option_map_new_refines_witness:
  "option_map_new (host_array [''key1=value1'', ''key2=value2''])
     = Some (OptionMap (options_abs [''key1=value1'', ''key2=value2'']))"
proof -
  have h: "\<forall>s \<in> set [''key1=value1'', ''key2=value2'']. NUL \<notin> set s"
    by (simp add: NUL_def)
  show ?thesis using option_map_new_refines [OF h] .
qed

lemma get_bytes_last_write_wins_witness:
  "OPTIONS_SEPARATOR \<notin> set ''a'' \<and>
   Option.bind (option_map_new (host_array ([''a=1''] @ (''a'' @ OPTIONS_SEPARATOR # ''2'') # [''b=3''])))
     (\<lambda>om. get_bytes om ''a'') = Some ''2''"
proof -
  have h1: "\<forall>s \<in> set ([''a=1''] @ (''a'' @ OPTIONS_SEPARATOR # ''2'') # [''b=3'']). NUL \<notin> set s"
    by (simp add: NUL_def OPTIONS_SEPARATOR_def)
  have h2: "OPTIONS_SEPARATOR \<notin> set ''a''" by (simp add: OPTIONS_SEPARATOR_def)
  have h3: "\<forall>s \<in> set [''b=3'']. fst (parse_option s) \<noteq> ''a''"
    using parse_option_sep [of "''b''" "''3''"] by (simp add: OPTIONS_SEPARATOR_def)
  show ?thesis using h2 get_bytes_last_write_wins [OF h1 h2 h3] by blast
qed

lemma get_bytes_bare_token_witness:
  "OPTIONS_SEPARATOR \<notin> set ''noexec'' \<and>
   Option.bind (option_map_new (host_array ([''noexec=x''] @ ''noexec'' # [])))
     (\<lambda>om. get_bytes om ''noexec'') = Some ''noexec''"
proof -
  have h1: "\<forall>s \<in> set ([''noexec=x''] @ ''noexec'' # []). NUL \<notin> set s"
    by (simp add: NUL_def)
  have h2: "OPTIONS_SEPARATOR \<notin> set ''noexec''" by (simp add: OPTIONS_SEPARATOR_def)
  have h3: "\<forall>s \<in> set []. fst (parse_option s) \<noteq> ''noexec''" by simp
  show ?thesis using h2 get_bytes_bare_token [OF h1 h2 h3] by blast
qed

lemma option_map_new_needs_sentinel_witness:
  "Null_ptr \<notin> set [Cstr_ptr (''a=b'' @ [NUL])] \<and>
   option_map_new (Array_ptr [Cstr_ptr (''a=b'' @ [NUL])]) = None"
  using option_map_new_needs_sentinel [of "[Cstr_ptr (''a=b'' @ [NUL])]"] by simp

lemma parse_option_roundtrip_witness:
  "OPTIONS_SEPARATOR \<in> set ''key=val=ue'' \<and>
   (parse_option ''key=val=ue'' = (''key'', ''val=ue'') \<longleftrightarrow>
      ''key=val=ue'' = ''key'' @ OPTIONS_SEPARATOR # ''val=ue'' \<and> OPTIONS_SEPARATOR \<notin> set ''key'')"
proof -
  have h: "OPTIONS_SEPARATOR \<in> set ''key=val=ue''" by (simp add: OPTIONS_SEPARATOR_def)
  show ?thesis using h parse_option_roundtrip [OF h, of "''key''" "''val=ue''"] by blast
qed

lemma get_error_names_key_witness:
  "get (\<lambda>v. Inl (Parse_failed Bool_invalid) :: bool result) (OptionMap [''k'' \<mapsto> ''x'']) ''k''
     = Inl (Unparsable_option ''k'') \<and>
   ((Unparsable_option ''k'' = Missing_option ''k'' \<and> get_str (OptionMap [''k'' \<mapsto> ''x'']) ''k'' = None)
   \<or> (Unparsable_option ''k'' = Unparsable_option ''k'' \<and>
       (\<exists>v pe. get_str (OptionMap [''k'' \<mapsto> ''x'']) ''k'' = Some v \<and>
          (\<lambda>v. Inl (Parse_failed Bool_invalid) :: bool result) v = Inl pe \<and> \<not> is_panic (Inl pe :: bool result)))
   \<or> (\<exists>m v. Unparsable_option ''k'' = Panic m \<and> get_str (OptionMap [''k'' \<mapsto> ''x'']) ''k'' = Some v \<and>
       (\<lambda>v. Inl (Parse_failed Bool_invalid) :: bool result) v = Inl (Panic m)))"
proof -
  have h: "get (\<lambda>v. Inl (Parse_failed Bool_invalid) :: bool result) (OptionMap [''k'' \<mapsto> ''x'']) ''k''
     = Inl (Unparsable_option ''k'')"
    by (simp add: get_def get_str_def)
  show ?thesis using h get_error_names_key [OF h] by blast
qed

end
