(* ===== verification/Coercion.thy ===== *)
theory Coercion
  imports Plugin_Prelude
begin

text \<open>
  The coercion abstraction of the crate's \<open>traits\<close> module:
  \<open>FromSudoOption::from_sudo_option\<close> turns one \<open>&str\<close> into a value, and
  \<open>FromSudoOptionList::from_sudo_option_list\<close> splits a string on the target
  type's \<open>SEPARATOR\<close> and coerces every segment, the whole list failing with
  the first failing segment (\<open>collect\<close> into a \<open>Result\<close> stops there). The
  built-in instances delegate to the standard \<open>FromStr\<close> implementations:
  \<open>String\<close> (total), \<open>bool\<close> (exactly \<open>"true"\<close> and \<open>"false"\<close>) and
  \<open>u64\<close> (optional \<open>+\<close>, decimal digits, checked arithmetic). A coercion is
  a function \<open>string \<Rightarrow> 'a result\<close>; \<open>u64\<close> values are \<^typ>\<open>64 word\<close>.
  The lemmas characterise each coercion against a reference reading of the
  input: the \<open>u64\<close> parser accepts exactly the decimal numerals below
  \<open>2^64\<close> and never truncates, and the list coercion inverts joining.
\<close>

subsection \<open>Single values\<close>

definition from_sudo_option_string :: "string \<Rightarrow> string result" where
  "from_sudo_option_string s = Inr s"

definition from_sudo_option_bool :: "string \<Rightarrow> bool result" where
  "from_sudo_option_bool s =
     (if s = ''true'' then Inr True
      else if s = ''false'' then Inr False
      else Inl (Parse_failed Bool_invalid))"

text \<open>\<open>char::to_digit(10)\<close>.\<close>

definition digit_value :: "char \<Rightarrow> nat option" where
  "digit_value c =
     (let n = (of_char c :: nat) in if 48 \<le> n \<and> n \<le> 57 then Some (n - 48) else None)"

definition checked_mul_u64 :: "64 word \<Rightarrow> 64 word \<Rightarrow> 64 word option" where
  "checked_mul_u64 a b = (if unat a * unat b < 2 ^ 64 then Some (a * b) else None)"

definition checked_add_u64 :: "64 word \<Rightarrow> 64 word \<Rightarrow> 64 word option" where
  "checked_add_u64 a b = (if unat a + unat b < 2 ^ 64 then Some (a + b) else None)"

text \<open>
  The digit loop of \<open>from_str_radix\<close>: the digit is checked before the
  overflow of the multiplication and then of the addition.
\<close>

fun u64_digits :: "64 word \<Rightarrow> string \<Rightarrow> 64 word result" where
  "u64_digits acc [] = Inr acc"
| "u64_digits acc (c # cs) =
     (case digit_value c of
        None \<Rightarrow> Inl (Parse_failed Int_invalid_digit)
      | Some d \<Rightarrow>
          (case checked_mul_u64 acc 10 of
             None \<Rightarrow> Inl (Parse_failed Int_pos_overflow)
           | Some m \<Rightarrow>
               (case checked_add_u64 m (of_nat d) of
                  None \<Rightarrow> Inl (Parse_failed Int_pos_overflow)
                | Some r \<Rightarrow> u64_digits r cs)))"

definition from_sudo_option_u64 :: "string \<Rightarrow> 64 word result" where
  "from_sudo_option_u64 s =
     (case s of
        [] \<Rightarrow> Inl (Parse_failed Int_empty)
      | c # cs \<Rightarrow>
          if (c = CHR ''+'' \<or> c = CHR ''-'') \<and> cs = [] then Inl (Parse_failed Int_invalid_digit)
          else if c = CHR ''+'' then u64_digits 0 cs
          else u64_digits 0 (c # cs))"

subsection \<open>Lists\<close>

text \<open>\<open>s.split(SEPARATOR).map(from_sudo_option).collect()\<close>.\<close>

fun parse_all :: "(string \<Rightarrow> 'a result) \<Rightarrow> string list \<Rightarrow> 'a list result" where
  "parse_all p [] = Inr []"
| "parse_all p (x # xs) =
     (case p x of
        Inl e \<Rightarrow> Inl e
      | Inr y \<Rightarrow> (case parse_all p xs of Inl e \<Rightarrow> Inl e | Inr ys \<Rightarrow> Inr (y # ys)))"

definition from_sudo_option_list :: "char \<Rightarrow> (string \<Rightarrow> 'a result) \<Rightarrow> string \<Rightarrow> 'a list result" where
  "from_sudo_option_list sep from_sudo_option s = parse_all from_sudo_option (split_on sep s)"

subsection \<open>Reference readings\<close>

text \<open>The value of a digit string, read left to right from an accumulator.\<close>

definition decimal_value :: "nat \<Rightarrow> string \<Rightarrow> nat" where
  "decimal_value acc ds = foldl (\<lambda>n c. 10 * n + the (digit_value c)) acc ds"

definition all_digits :: "string \<Rightarrow> bool" where
  "all_digits ds \<longleftrightarrow> (\<forall>c \<in> set ds. digit_value c \<noteq> None)"

text \<open>The numerals \<open>u64::from_str\<close> is meant to accept, with their value.\<close>

definition u64_numeral :: "string \<Rightarrow> nat option" where
  "u64_numeral s =
     (let ds = (case s of c # cs \<Rightarrow> if c = CHR ''+'' then cs else s | [] \<Rightarrow> [])
      in if ds \<noteq> [] \<and> all_digits ds \<and> decimal_value 0 ds < 2 ^ 64
         then Some (decimal_value 0 ds) else None)"

text \<open>A coercion that never panics (all the built-in ones).\<close>

definition never_panics :: "(string \<Rightarrow> 'a result) \<Rightarrow> bool" where
  "never_panics p \<longleftrightarrow> (\<forall>s. \<not> is_panic (p s))"

subsection \<open>Lemmas on the \<open>u64\<close> parser\<close>

lemma digit_value_less: "digit_value c = Some d \<Longrightarrow> d < 10"
  by (auto simp: digit_value_def Let_def split: if_splits)

lemma decimal_value_Cons [simp]:
  "decimal_value acc (c # cs) = decimal_value (10 * acc + the (digit_value c)) cs"
  by (simp add: decimal_value_def)

lemma decimal_value_ge: "acc \<le> decimal_value acc ds"
proof (induction ds arbitrary: acc)
  case Nil
  then show ?case by (simp add: decimal_value_def)
next
  case (Cons c cs)
  have "acc \<le> 10 * acc + the (digit_value c)" by simp
  also have "\<dots> \<le> decimal_value (10 * acc + the (digit_value c)) cs" by (rule Cons.IH)
  finally show ?case by simp
qed

text \<open>One step of the digit loop, read in \<^typ>\<open>nat\<close>.\<close>

lemma u64_digits_step:
  assumes d: "digit_value c = Some d"
  shows "u64_digits acc (c # cs) =
           (if 10 * unat acc + d < 2 ^ 64 then u64_digits (of_nat (10 * unat acc + d)) cs
            else Inl (Parse_failed Int_pos_overflow))"
proof -
  have d10: "d < 10" using digit_value_less [OF d] .
  have ud: "unat (of_nat d :: 64 word) = d" using d10 by (simp add: unat_of_nat)
  have u10: "unat (10 :: 64 word) = 10" by simp
  show ?thesis
  proof (cases "unat acc * 10 < (2::nat) ^ 64")
    case mul_ok: True
    then have "unat acc * unat (10 :: 64 word) < 2 ^ LENGTH(64)" by (simp only: u10) simp
    then have "unat (acc * 10) = unat acc * unat (10 :: 64 word)"
      by (rule unat_mult_lem [THEN iffD1])
    then have um: "unat (acc * 10) = unat acc * 10" by (simp only: u10)
    have cm: "checked_mul_u64 acc 10 = Some (acc * 10)"
      using mul_ok by (simp only: checked_mul_u64_def u10 if_True)
    have w: "acc * 10 + of_nat d = (of_nat (10 * unat acc + d) :: 64 word)"
      by (simp add: algebra_simps)
    have ca: "checked_add_u64 (acc * 10) (of_nat d) =
                (if 10 * unat acc + d < 2 ^ 64 then Some (of_nat (10 * unat acc + d)) else None)"
      by (simp only: checked_add_u64_def um ud w mult.commute)
    show ?thesis by (simp add: d cm ca)
  next
    case False
    then have cm: "checked_mul_u64 acc 10 = None"
      by (simp only: checked_mul_u64_def u10 if_False)
    from False have "\<not> 10 * unat acc + d < 2 ^ 64" by arith
    then show ?thesis by (simp add: d cm)
  qed
qed

lemma u64_digits_value:
  "all_digits ds \<Longrightarrow> unat acc = n \<Longrightarrow>
     u64_digits acc ds = (if decimal_value n ds < 2 ^ 64 then Inr (of_nat (decimal_value n ds))
                          else Inl (Parse_failed Int_pos_overflow))"
proof (induction ds arbitrary: acc n)
  case Nil
  have "unat acc < 2 ^ 64" using unsigned_less [of acc] by simp
  with Nil show ?case by (auto simp: decimal_value_def)
next
  case (Cons c cs)
  from Cons.prems obtain d where d: "digit_value c = Some d" and rest: "all_digits cs"
    by (auto simp: all_digits_def)
  show ?case
  proof (cases "10 * n + d < 2 ^ 64")
    case True
    then have "unat (of_nat (10 * n + d) :: 64 word) = 10 * n + d"
      by (subst unat_of_nat) simp
    from Cons.IH [OF rest this] True d Cons.prems(2) show ?thesis
      by (simp add: u64_digits_step [OF d] del: u64_digits.simps)
  next
    case False
    have "10 * n + d \<le> decimal_value (10 * n + d) cs" by (rule decimal_value_ge)
    with False d Cons.prems(2) show ?thesis
      by (simp add: u64_digits_step [OF d] del: u64_digits.simps)
  qed
qed

lemma u64_digits_Inr_all_digits: "u64_digits acc ds = Inr w \<Longrightarrow> all_digits ds"
proof (induction acc ds rule: u64_digits.induct)
  case (2 acc c cs)
  then show ?case
    by (auto simp: all_digits_def split: option.splits)
qed (simp add: all_digits_def)

lemma u64_digits_Inr_iff:
  "u64_digits 0 ds = Inr w \<longleftrightarrow> all_digits ds \<and> decimal_value 0 ds < 2 ^ 64 \<and> unat w = decimal_value 0 ds"
proof
  assume r: "u64_digits 0 ds = Inr w"
  then have a: "all_digits ds" by (rule u64_digits_Inr_all_digits)
  with r show "all_digits ds \<and> decimal_value 0 ds < 2 ^ 64 \<and> unat w = decimal_value 0 ds"
    by (auto simp: u64_digits_value [OF a] unat_of_nat split: if_splits)
next
  assume a: "all_digits ds \<and> decimal_value 0 ds < 2 ^ 64 \<and> unat w = decimal_value 0 ds"
  then have "unat w = unat (of_nat (decimal_value 0 ds) :: 64 word)"
    by (simp add: unat_of_nat)
  then have "w = of_nat (decimal_value 0 ds)" by (simp only: word_unat_eq_iff)
  with a show "u64_digits 0 ds = Inr w"
    by (simp add: u64_digits_value)
qed

lemma all_digits_sign: "c = CHR ''+'' \<or> c = CHR ''-'' \<Longrightarrow> \<not> all_digits (c # cs)"
  by (auto simp: all_digits_def digit_value_def)

subsection \<open>Lemmas on lists\<close>

lemma parse_all_Inr_iff: "parse_all p xs = Inr ys \<longleftrightarrow> list_all2 (\<lambda>x y. p x = Inr y) xs ys"
proof (induction xs arbitrary: ys)
  case Nil
  then show ?case by auto
next
  case (Cons x xs)
  have "parse_all p (x # xs) = Inr ys \<longleftrightarrow>
          (\<exists>y ys'. ys = y # ys' \<and> p x = Inr y \<and> parse_all p xs = Inr ys')"
    by (auto split: sum.splits)
  then show ?case by (cases ys) (simp_all add: Cons.IH)
qed

lemma parse_all_map: "\<forall>a \<in> set as. p (pr a) = Inr (f a) \<Longrightarrow> parse_all p (map pr as) = Inr (map f as)"
  by (induction as) auto

lemma never_panics_builtin:
  "never_panics from_sudo_option_string" "never_panics from_sudo_option_bool"
  "never_panics from_sudo_option_u64"
proof -
  have digits: "\<not> is_panic (u64_digits acc ds)" for acc ds
    by (induction acc ds rule: u64_digits.induct) (auto split: option.splits)
  show "never_panics from_sudo_option_string" "never_panics from_sudo_option_bool"
    by (simp_all add: never_panics_def from_sudo_option_string_def from_sudo_option_bool_def)
  show "never_panics from_sudo_option_u64"
    by (auto simp: never_panics_def from_sudo_option_u64_def digits simp del: u64_digits.simps
        split: list.split)
qed

lemma parse_all_never_panics: "never_panics p \<Longrightarrow> \<not> is_panic (parse_all p xs)"
  by (induction xs) (auto simp: never_panics_def is_panic_def split: sum.splits)

lemma never_panics_list: "never_panics p \<Longrightarrow> never_panics (from_sudo_option_list sep p)"
  by (simp add: never_panics_def from_sudo_option_list_def parse_all_never_panics)

lemmas coercion_defs = from_sudo_option_string_def from_sudo_option_bool_def
  from_sudo_option_u64_def digit_value_def checked_mul_u64_def checked_add_u64_def
  from_sudo_option_list_def


lemma parse_all_Inl_iff:
  "parse_all p xs = Inl e \<longleftrightarrow>
     (\<exists>pre x post. xs = pre @ x # post \<and> list_all (\<lambda>y. \<not> isl (p y)) pre \<and> p x = Inl e)"
proof (induction xs)
  case Nil
  then show ?case by simp
next
  case (Cons x xs)
  show ?case
  proof (cases "p x")
    case (Inl e')
    have "(\<exists>pre y post. x # xs = pre @ y # post \<and> list_all (\<lambda>y. \<not> isl (p y)) pre
             \<and> p y = Inl e) \<longleftrightarrow> e' = e"
    proof
      assume "\<exists>pre y post. x # xs = pre @ y # post \<and> list_all (\<lambda>y. \<not> isl (p y)) pre
                \<and> p y = Inl e"
      then obtain pre y post where "x # xs = pre @ y # post" "list_all (\<lambda>y. \<not> isl (p y)) pre"
          "p y = Inl e" by blast
      with Inl show "e' = e" by (cases pre) auto
    next
      assume "e' = e"
      with Inl have "x # xs = [] @ x # xs \<and> list_all (\<lambda>y. \<not> isl (p y)) [] \<and> p x = Inl e"
        by simp
      then show "\<exists>pre y post. x # xs = pre @ y # post \<and> list_all (\<lambda>y. \<not> isl (p y)) pre
                \<and> p y = Inl e" by blast
    qed
    with Inl show ?thesis by auto
  next
    case (Inr y)
    let ?P = "\<lambda>zs. \<exists>pre z post. zs = pre @ z # post \<and> list_all (\<lambda>y. \<not> isl (p y)) pre \<and> p z = Inl e"
    have "parse_all p (x # xs) = Inl e \<longleftrightarrow> parse_all p xs = Inl e"
      using Inr by (simp split: sum.split)
    also have "\<dots> \<longleftrightarrow> ?P xs" by (rule Cons.IH)
    also have "\<dots> \<longleftrightarrow> ?P (x # xs)"
    proof
      assume "?P xs"
      then obtain pre z post where "xs = pre @ z # post" "list_all (\<lambda>y. \<not> isl (p y)) pre"
          "p z = Inl e" by blast
      with Inr have "x # xs = (x # pre) @ z # post \<and> list_all (\<lambda>y. \<not> isl (p y)) (x # pre)
                       \<and> p z = Inl e" by simp
      then show "?P (x # xs)" by blast
    next
      assume "?P (x # xs)"
      then obtain pre z post where eq: "x # xs = pre @ z # post"
          and la: "list_all (\<lambda>y. \<not> isl (p y)) pre" and pz: "p z = Inl e" by blast
      with Inr obtain pre' where "pre = x # pre'" by (cases pre) auto
      with eq la pz show "?P xs" by auto
    qed
    finally show ?thesis .
  qed
qed

lemma u64_from_str_numeral:
  "from_sudo_option_u64 s = Inr w \<longleftrightarrow> u64_numeral s = Some (unat w)"
proof (cases s)
  case Nil
  then show ?thesis by (simp add: from_sudo_option_u64_def u64_numeral_def)
next
  case (Cons c cs)
  show ?thesis
  proof (cases "c = CHR ''+''")
    case True
    with Cons show ?thesis
      by (cases "cs = []")
        (auto simp: from_sudo_option_u64_def u64_numeral_def u64_digits_Inr_iff Let_def
          simp del: u64_digits.simps decimal_value_Cons)
  next
    case False
    with Cons all_digits_sign [of c cs] show ?thesis
      by (auto simp: from_sudo_option_u64_def u64_numeral_def u64_digits_Inr_iff Let_def
          simp del: u64_digits.simps decimal_value_Cons)
  qed
qed

subsection \<open>Characterisations\<close>

text \<open>
  A boolean option parses only from its canonical spelling:
  \<open>true\<close> gives \<^term>\<open>True\<close>, \<open>false\<close> gives \<^term>\<open>False\<close>, anything
  else is a parse error.
\<close>

lemma from_sudo_option_bool_iff:
  "from_sudo_option_bool s = Inr b \<longleftrightarrow> s = (if b then ''true'' else ''false'')"
  by (auto simp: from_sudo_option_bool_def)

text \<open>
  A list coercion fails exactly when some segment fails, with the
  error of the first failing segment, every segment before it having parsed;
  no partial list is returned.
\<close>

lemma from_sudo_option_list_Inl_iff:
  "from_sudo_option_list sep from_sudo_option s = Inl e \<longleftrightarrow>
     (\<exists>pre seg post. split_on sep s = pre @ seg # post
        \<and> list_all (\<lambda>x. \<not> isl (from_sudo_option x)) pre \<and> from_sudo_option seg = Inl e)"
  by (simp add: from_sudo_option_list_def parse_all_Inl_iff)

text \<open>
  Joining the printed forms of a non-empty list with the
  separator and coercing the result gives the list back, for any element
  coercion that inverts its printer and whose printed forms avoid the
  separator.
\<close>

lemma from_sudo_option_list_join:
  assumes "as \<noteq> []"
    and "\<forall>a \<in> set as. from_sudo_option (print a) = Inr (f a) \<and> sep \<notin> set (print a)"
  shows "from_sudo_option_list sep from_sudo_option (join_with sep (map print as)) = Inr (map f as)"
proof -
  have "split_on sep (join_with sep (map print as)) = map print as"
    using assms by (intro split_on_join_with) auto
  with assms(2) show ?thesis
    by (simp add: from_sudo_option_list_def parse_all_map)
qed

subsection \<open>Examples\<close>

lemma from_sudo_option_u64_examples:
  "from_sudo_option_u64 ''18446744073709551615'' = Inr 18446744073709551615 \<and>
   from_sudo_option_u64 ''18446744073709551616'' = Inl (Parse_failed Int_pos_overflow) \<and>
   from_sudo_option_u64 ''+7'' = Inr 7 \<and>
   from_sudo_option_u64 ''-7'' = Inl (Parse_failed Int_invalid_digit) \<and>
   from_sudo_option_u64 [] = Inl (Parse_failed Int_empty)"
  by (simp add: coercion_defs)

lemma from_sudo_option_list_bool_example:
  "from_sudo_option_list (CHR '' '') from_sudo_option_bool
     (join_with (CHR '' '') (map (\<lambda>b. if b then ''true'' else ''false'') [True, False, True]))
   = Inr [True, False, True]"
proof -
  have h1: "[True, False, True] \<noteq> []" by simp
  have h2: "\<forall>a \<in> set [True, False, True].
      from_sudo_option_bool ((\<lambda>b. if b then ''true'' else ''false'') a) = Inr (id a)
      \<and> CHR '' '' \<notin> set ((\<lambda>b. if b then ''true'' else ''false'') a)"
    by (simp add: from_sudo_option_bool_def)
  show ?thesis
    using from_sudo_option_list_join [OF h1 h2] by simp
qed

end
