(* ===== verification/Ip_Addr.thy ===== *)
theory Ip_Addr
  imports Coercion
begin

text \<open>
  The address types \<open>NetAddr\<close> is built from (\<open>std::net::IpAddr\<close>) and
  their parser. \<^term>\<open>ip_addr_from_str\<close> follows \<open>IpAddr::from_str\<close> of
  \<open>core::net::parser\<close>: an IPv4 address (four decimal octets, at most three
  digits, no leading zero), else an IPv6 address (up to eight hexadecimal groups
  of at most four digits, one \<open>::\<close> standing for one or more zero groups, an
  IPv4 address in the last two groups), with the whole input consumed.
  \<^term>\<open>ipv4_from_str\<close> is a reference reading of IPv4 text (split at the dots,
  four octets); the lemmas show that the parser agrees with it, and that
  printed addresses parse back.
\<close>

subsection \<open>Addresses\<close>

text \<open>\<open>Ipv4Addr\<close> holds its four octets; \<open>IpAddr\<close> is the sum of both kinds.\<close>

datatype ipv4_addr = Ipv4Addr "8 word" "8 word" "8 word" "8 word"

text \<open>\<open>Ipv6Addr\<close> holds its eight 16-bit groups (\<open>[u16; 8]\<close>).\<close>

datatype ipv6_addr =
  Ipv6Addr "16 word" "16 word" "16 word" "16 word" "16 word" "16 word" "16 word" "16 word"

datatype ip_addr = V4 ipv4_addr | V6 ipv6_addr

text \<open>The reference reading of one octet.\<close>

definition ipv4_octet :: "string \<Rightarrow> nat option" where
  "ipv4_octet ds =
     (if ds \<noteq> [] \<and> length ds \<le> 3 \<and> all_digits ds \<and> (length ds = 1 \<or> hd ds \<noteq> CHR ''0'')
         \<and> decimal_value 0 ds < 256
      then Some (decimal_value 0 ds) else None)"

definition ipv4_from_str :: "string \<Rightarrow> parse_error + ipv4_addr" where
  "ipv4_from_str s =
     (case map ipv4_octet (split_on (CHR ''.'') s) of
        [Some a, Some b, Some c, Some d] \<Rightarrow> Inr (Ipv4Addr (of_nat a) (of_nat b) (of_nat c) (of_nat d))
      | _ \<Rightarrow> Inl Addr_invalid)"

subsection \<open>The address parser of the standard library\<close>

text \<open>
  \<open>core::net::parser\<close>: a parser reads from the front of the input and on
  failure leaves it untouched (\<open>read_atomically\<close>); here a reader maps the
  input to \<^term>\<open>None\<close> or to its value and the rest of the input.
  \<open>char::to_digit(radix)\<close>:
\<close>

definition radix_digit :: "nat \<Rightarrow> char \<Rightarrow> nat option" where
  "radix_digit r c =
     (let n = (of_char c :: nat) in
      if 48 \<le> n \<and> n \<le> 57 \<and> n - 48 < r then Some (n - 48)
      else if 97 \<le> n \<and> n \<le> 122 \<and> n - 87 < r then Some (n - 87)
      else if 65 \<le> n \<and> n \<le> 90 \<and> n - 55 < r then Some (n - 55)
      else None)"

text \<open>The value of a run of digits, most significant first.\<close>

definition radix_value :: "nat \<Rightarrow> nat \<Rightarrow> string \<Rightarrow> nat" where
  "radix_value r acc ds = foldl (\<lambda>n c. n * r + the (radix_digit r c)) acc ds"

text \<open>
  The digit loop of \<open>read_number\<close> for an integer type with \<open>bound\<close>
  values: \<open>checked_mul\<close>, \<open>checked_add\<close>, then the digit count against
  \<open>max_digits\<close>; the loop ends at the first character that is not a digit.
\<close>

fun read_digits :: "nat \<Rightarrow> nat \<Rightarrow> nat \<Rightarrow> nat \<Rightarrow> nat \<Rightarrow> string \<Rightarrow> (nat \<times> nat \<times> string) option" where
  "read_digits r mx bound acc cnt [] = Some (acc, cnt, [])"
| "read_digits r mx bound acc cnt (c # cs) =
     (case radix_digit r c of
        None \<Rightarrow> Some (acc, cnt, c # cs)
      | Some d \<Rightarrow>
          if bound \<le> acc * r then None
          else if bound \<le> acc * r + d then None
          else if mx < Suc cnt then None
          else read_digits r mx bound (acc * r + d) (Suc cnt) cs)"

definition read_number :: "nat \<Rightarrow> nat \<Rightarrow> nat \<Rightarrow> bool \<Rightarrow> string \<Rightarrow> (nat \<times> string) option" where
  "read_number r mx bound allow_zero_prefix s =
     (let has_leading_zero = (case s of c # _ \<Rightarrow> c = CHR ''0'' | [] \<Rightarrow> False) in
      case read_digits r mx bound 0 0 s of
        None \<Rightarrow> None
      | Some (v, cnt, rest) \<Rightarrow>
          if cnt = 0 then None
          else if \<not> allow_zero_prefix \<and> has_leading_zero \<and> 1 < cnt then None
          else Some (v, rest))"

definition read_given_char :: "char \<Rightarrow> string \<Rightarrow> string option" where
  "read_given_char c s = (case s of d # s' \<Rightarrow> if d = c then Some s' else None | [] \<Rightarrow> None)"

definition read_separator ::
    "char \<Rightarrow> nat \<Rightarrow> (string \<Rightarrow> ('a \<times> string) option) \<Rightarrow> string \<Rightarrow> ('a \<times> string) option" where
  "read_separator sep i p s = (if 0 < i then Option.bind (read_given_char sep s) p else p s)"

text \<open>
  \<open>read_ipv4_addr\<close>: for each of the four slots \<open>(i, slot)\<close>, a separator
  when \<open>i > 0\<close> and an octet \<open>read_number(10, Some(3), false)\<close> into \<open>u8\<close>.
\<close>

fun read_ipv4_groups :: "nat list \<Rightarrow> string \<Rightarrow> (8 word list \<times> string) option" where
  "read_ipv4_groups [] s = Some ([], s)"
| "read_ipv4_groups (i # is) s =
     (case read_separator (CHR ''.'') i (read_number 10 3 256 False) s of
        None \<Rightarrow> None
      | Some (v, s') \<Rightarrow> map_option (\<lambda>(vs, r). (of_nat v # vs, r)) (read_ipv4_groups is s'))"

definition read_ipv4_addr :: "string \<Rightarrow> (ipv4_addr \<times> string) option" where
  "read_ipv4_addr s =
     (case read_ipv4_groups [0, 1, 2, 3] s of
        Some ([a, b, c, d], r) \<Rightarrow> Some (Ipv4Addr a b c d, r)
      | _ \<Rightarrow> None)"

text \<open>An embedded IPv4 address fills two groups, \<open>u16::from_be_bytes\<close>.\<close>

definition ipv4_groups :: "ipv4_addr \<Rightarrow> 16 word list" where
  "ipv4_groups a =
     (case a of Ipv4Addr o1 o2 o3 o4 \<Rightarrow>
        [of_nat (unat o1 * 256 + unat o2), of_nat (unat o3 * 256 + unat o4)])"

text \<open>
  \<open>read_groups\<close> of \<open>read_ipv6_addr\<close>: up to \<open>limit\<close> colon-separated
  groups \<open>read_number(16, Some(4), true)\<close> into \<open>u16\<close>, where an embedded
  IPv4 address is tried first while two groups are left; it returns the groups
  read and whether the last thing read was an IPv4 address.
\<close>

function read_groups :: "nat \<Rightarrow> nat \<Rightarrow> 16 word list \<Rightarrow> string \<Rightarrow> 16 word list \<times> bool \<times> string" where
  "read_groups limit i acc s =
     (if i < limit then
        (case (if i < limit - 1 then read_separator (CHR '':'') i read_ipv4_addr s else None) of
           Some (a, s') \<Rightarrow> (acc @ ipv4_groups a, True, s')
         | None \<Rightarrow>
             (case read_separator (CHR '':'') i (read_number 16 4 65536 True) s of
                Some (g, s') \<Rightarrow> read_groups limit (Suc i) (acc @ [of_nat g]) s'
              | None \<Rightarrow> (acc, False, s)))
      else (acc, False, s))"
  by pat_completeness auto
termination
  by (relation "measure (\<lambda>(limit, i, acc, s). limit - i)") auto

definition ipv6_of_groups :: "16 word list \<Rightarrow> ipv6_addr" where
  "ipv6_of_groups gs = Ipv6Addr (gs ! 0) (gs ! 1) (gs ! 2) (gs ! 3) (gs ! 4) (gs ! 5) (gs ! 6) (gs ! 7)"

text \<open>
  \<open>read_ipv6_addr\<close>: the groups before \<open>::\<close> (all eight, or no IPv4 part
  among them), then \<open>::\<close> and at most \<open>7 - head_size\<close> more groups, copied to
  the end of the eight (\<open>head[8 - tail_size ..].copy_from_slice(tail)\<close>).
\<close>

definition read_ipv6_addr :: "string \<Rightarrow> (ipv6_addr \<times> string) option" where
  "read_ipv6_addr s =
     (case read_groups 8 0 [] s of
        (head, head_ipv4, s1) \<Rightarrow>
          if length head = 8 then Some (ipv6_of_groups head, s1)
          else if head_ipv4 then None
          else
            (case Option.bind (read_given_char (CHR '':'') s1) (read_given_char (CHR '':'')) of
               None \<Rightarrow> None
             | Some s2 \<Rightarrow>
                 (case read_groups (8 - (length head + 1)) 0 [] s2 of
                    (tail, _, s3) \<Rightarrow>
                      Some (ipv6_of_groups (take (8 - length tail) (head @ replicate (8 - length head) 0) @ tail),
                            s3))))"

text \<open>\<open>read_ip_addr\<close>: IPv4 first, then IPv6; \<open>parse_with\<close> requires the whole input.\<close>

definition read_ip_addr :: "string \<Rightarrow> (ip_addr \<times> string) option" where
  "read_ip_addr s =
     (case read_ipv4_addr s of
        Some (a, r) \<Rightarrow> Some (V4 a, r)
      | None \<Rightarrow> map_option (\<lambda>(a, r). (V6 a, r)) (read_ipv6_addr s))"

definition ip_addr_from_str :: "string \<Rightarrow> parse_error + ip_addr" where
  "ip_addr_from_str s = (case read_ip_addr s of Some (a, []) \<Rightarrow> Inr a | _ \<Rightarrow> Inl Addr_invalid)"

definition ipv4_addr_from_str :: "string \<Rightarrow> parse_error + ipv4_addr" where
  "ipv4_addr_from_str s = (case read_ipv4_addr s of Some (a, []) \<Rightarrow> Inr a | _ \<Rightarrow> Inl Addr_invalid)"

subsection \<open>Printing\<close>

text \<open>Dotted-decimal printing (\<open>Display for Ipv4Addr\<close>), for the round trip.\<close>

fun dec_string :: "nat \<Rightarrow> string" where
  "dec_string n =
     (if n < 10 then [char_of (48 + n)] else dec_string (n div 10) @ [char_of (48 + n mod 10)])"

fun ipv4_to_string :: "ipv4_addr \<Rightarrow> string" where
  "ipv4_to_string (Ipv4Addr a b c d) =
     dec_string (unat a) @ CHR ''.'' # dec_string (unat b) @ CHR ''.'' #
     dec_string (unat c) @ CHR ''.'' # dec_string (unat d)"



text \<open>Preferred-form IPv6 printing (RFC 4291, 2.2.1): eight groups of lowercase
  hexadecimal digits without leading zeros, separated by colons.\<close>

definition hex_char :: "nat \<Rightarrow> char" where
  "hex_char d = char_of (if d < 10 then 48 + d else 87 + d)"

fun hex_string :: "nat \<Rightarrow> string" where
  "hex_string n = (if n < 16 then [hex_char n] else hex_string (n div 16) @ [hex_char (n mod 16)])"

fun ipv6_to_string :: "ipv6_addr \<Rightarrow> string" where
  "ipv6_to_string (Ipv6Addr a b c d e f g h) =
     join_with (CHR '':'') (map (\<lambda>w. hex_string (unat w)) [a, b, c, d, e, f, g, h])"

text \<open>\<open>IpAddr\<close> printed in the form of its family.\<close>

fun ip_addr_to_string :: "ip_addr \<Rightarrow> string" where
  "ip_addr_to_string (V4 a) = ipv4_to_string a"
| "ip_addr_to_string (V6 a) = ipv6_to_string a"

subsection \<open>Lemmas\<close>

declare read_groups.simps [simp del]

lemma digit_value_char_of: "d < 10 \<Longrightarrow> digit_value (char_of (48 + d)) = Some d"
  by (simp add: digit_value_def)

lemma dec_string_not_Nil [simp]: "dec_string n \<noteq> []"
  by (subst dec_string.simps) simp

declare dec_string.simps [simp del] hex_string.simps [simp del]

lemma dec_string_digits: "all_digits (dec_string n) \<and> decimal_value 0 (dec_string n) = n"
proof (induction n rule: dec_string.induct)
  case (1 n)
  show ?case
  proof (cases "n < 10")
    case True
    then show ?thesis
      by (simp add: dec_string.simps all_digits_def decimal_value_def digit_value_char_of)
  next
    case False
    with "1.IH" have "all_digits (dec_string (n div 10))"
      and "decimal_value 0 (dec_string (n div 10)) = n div 10" by simp_all
    with False show ?thesis
      by (simp add: dec_string.simps [of n] all_digits_def decimal_value_def digit_value_char_of)
  qed
qed

lemma dec_string_length: "n < 10 ^ Suc k \<Longrightarrow> length (dec_string n) \<le> Suc k"
proof (induction n arbitrary: k rule: dec_string.induct)
  case (1 n)
  show ?case
  proof (cases "n < 10")
    case True
    then show ?thesis by (simp add: dec_string.simps)
  next
    case False
    with "1.prems" obtain k' where k: "k = Suc k'" by (cases k) auto
    with "1.prems" have "n div 10 < 10 ^ Suc k'" by (simp add: div_less_iff_less_mult)
    with "1.IH" False have "length (dec_string (n div 10)) \<le> Suc k'" by simp
    with False k show ?thesis by (simp add: dec_string.simps [of n])
  qed
qed

lemma dec_string_hd: "0 < n \<Longrightarrow> hd (dec_string n) \<noteq> CHR ''0''"
proof (induction n rule: dec_string.induct)
  case (1 n)
  show ?case
  proof (cases "n < 10")
    case True
    have "char_of (48 + n) \<noteq> CHR ''0''"
    proof
      assume "char_of (48 + n) = CHR ''0''"
      then have "of_char (char_of (48 + n)) = (of_char (CHR ''0'') :: nat)" by simp
      with True "1.prems" show False by simp
    qed
    with True show ?thesis by (simp add: dec_string.simps)
  next
    case False
    with "1.IH" have "hd (dec_string (n div 10)) \<noteq> CHR ''0''" by simp
    with False show ?thesis by (simp add: dec_string.simps [of n])
  qed
qed

lemma ipv4_octet_dec_string: "n < 256 \<Longrightarrow> ipv4_octet (dec_string n) = Some n"
proof -
  assume n: "n < 256"
  then have "length (dec_string n) \<le> 3"
    using dec_string_length [of n 2] by simp
  moreover have "length (dec_string n) = 1 \<or> hd (dec_string n) \<noteq> CHR ''0''"
    using dec_string_hd [of n] by (cases "n = 0") (simp_all add: dec_string.simps)
  ultimately show ?thesis
    using n dec_string_digits [of n] by (simp add: ipv4_octet_def)
qed

lemma digit_not_sep:
  "digit_value c \<noteq> None \<Longrightarrow> c \<noteq> CHR ''.'' \<and> c \<noteq> CHR ''/'' \<and> c \<noteq> CHR '' '' \<and> c \<noteq> CHR '':''"
  by (auto simp: digit_value_def)

lemma dec_string_no_sep:
  "CHR ''.'' \<notin> set (dec_string n) \<and> CHR ''/'' \<notin> set (dec_string n) \<and> CHR '' '' \<notin> set (dec_string n)
   \<and> CHR '':'' \<notin> set (dec_string n)"
  using dec_string_digits [of n] digit_not_sep unfolding all_digits_def by blast

lemma ipv4_to_string_join:
  "ipv4_to_string (Ipv4Addr a b c d) =
     join_with (CHR ''.'') (map dec_string [unat a, unat b, unat c, unat d])"
  by simp

lemma ipv4_from_str_to_string: "ipv4_from_str (ipv4_to_string x) = Inr x"
proof (cases x)
  case (Ipv4Addr a b c d)
  have nodot: "\<forall>s \<in> set (map dec_string [unat a, unat b, unat c, unat d]). CHR ''.'' \<notin> set s"
    using dec_string_no_sep by auto
  have "split_on (CHR ''.'') (ipv4_to_string x) = map dec_string [unat a, unat b, unat c, unat d]"
    unfolding Ipv4Addr ipv4_to_string_join by (rule split_on_join_with) (simp_all add: nodot)
  moreover have "unat w < 256" for w :: "8 word"
    using unsigned_less [of w] by simp
  ultimately show ?thesis
    by (simp add: Ipv4Addr ipv4_from_str_def ipv4_octet_dec_string)
qed

lemma slash_not_in_ipv4_to_string: "CHR ''/'' \<notin> set (ipv4_to_string x)"
proof (cases x)
  case (Ipv4Addr a b c d)
  then show ?thesis
    using dec_string_no_sep by auto
qed

lemma space_not_in_ipv4_to_string: "CHR '' '' \<notin> set (ipv4_to_string x)"
proof (cases x)
  case (Ipv4Addr a b c d)
  then show ?thesis
    using dec_string_no_sep by auto
qed

lemmas ipv4_eval = ipv4_from_str_def ipv4_octet_def all_digits_def
  digit_value_def decimal_value_def

lemma radix_value_Nil [simp]: "radix_value r acc [] = acc"
  by (simp add: radix_value_def)

lemma radix_value_Cons [simp]:
  "radix_value r acc (c # ds) = radix_value r (acc * r + the (radix_digit r c)) ds"
  by (simp add: radix_value_def)

lemma radix_value_ge: "0 < r \<Longrightarrow> acc \<le> radix_value r acc ds"
proof (induction ds arbitrary: acc)
  case (Cons c ds)
  have "acc \<le> acc * r" using Cons.prems by simp
  also have "\<dots> \<le> acc * r + the (radix_digit r c)" by simp
  also have "\<dots> \<le> radix_value r (acc * r + the (radix_digit r c)) ds" using Cons by blast
  finally show ?case by simp
qed (simp add: radix_value_def)

lemma read_digits_run:
  assumes "0 < r" and "\<forall>c \<in> set ds. radix_digit r c \<noteq> None"
    and "rest = [] \<or> radix_digit r (hd rest) = None"
  shows "read_digits r mx bd acc cnt (ds @ rest) =
           (if ds = [] \<or> (cnt + length ds \<le> mx \<and> radix_value r acc ds < bd)
            then Some (radix_value r acc ds, cnt + length ds, rest) else None)"
  using assms(2)
proof (induction ds arbitrary: acc cnt)
  case Nil
  then show ?case using assms(3) by (cases rest) (auto simp: radix_value_def)
next
  case (Cons c ds)
  then obtain d where d: "radix_digit r c = Some d" by auto
  let ?a = "acc * r + d"
  have ge: "?a \<le> radix_value r ?a ds" using radix_value_ge [OF assms(1)] .
  have IH: "read_digits r mx bd ?a (Suc cnt) (ds @ rest) =
      (if ds = [] \<or> (Suc cnt + length ds \<le> mx \<and> radix_value r ?a ds < bd)
       then Some (radix_value r ?a ds, Suc cnt + length ds, rest) else None)"
    using Cons by simp
  show ?case using ge d IH by (auto simp: not_less)
qed

lemma read_digits_suffix:
  "read_digits r mx bd acc cnt s = Some (v, n, rest) \<Longrightarrow> \<exists>p. s = p @ rest"
proof (induction r mx bd acc cnt s rule: read_digits.induct)
  case (2 r mx bd acc cnt c cs)
  then show ?case
    by (auto split: option.splits if_splits)
qed simp

lemma read_number_suffix:
  "read_number r mx bd z s = Some (v, rest) \<Longrightarrow> \<exists>p. s = p @ rest"
  by (auto simp: read_number_def Let_def split: option.splits if_splits dest: read_digits_suffix)

lemma radix_digit_10: "radix_digit 10 c = digit_value c"
  by (simp add: radix_digit_def digit_value_def Let_def) arith

lemma radix_value_10: "radix_value 10 acc ds = decimal_value acc ds"
  by (simp add: radix_value_def decimal_value_def radix_digit_10 mult.commute)

lemma dot_not_digit: "digit_value (CHR ''.'') = None"
  by (simp add: digit_value_def)

lemma read_octet_run:
  assumes "all_digits ds" and "rest = [] \<or> digit_value (hd rest) = None"
  shows "read_number 10 3 256 False (ds @ rest) = map_option (\<lambda>v. (v, rest)) (ipv4_octet ds)"
proof (cases "ds = []")
  case True
  then show ?thesis using read_digits_run [of 10 "[]" rest 3 256 0 0] assms(2)
    by (simp add: read_number_def ipv4_octet_def radix_digit_10)
next
  case False
  have run: "read_digits 10 3 256 0 0 (ds @ rest) =
      (if length ds \<le> 3 \<and> decimal_value 0 ds < 256 then Some (decimal_value 0 ds, length ds, rest) else None)"
    using read_digits_run [of 10 ds rest 3 256 0 0] assms False
    by (simp add: radix_digit_10 radix_value_10 all_digits_def)
  have lz: "(case ds @ rest of c # _ \<Rightarrow> c = CHR ''0'' | [] \<Rightarrow> False) = (hd ds = CHR ''0'')"
    using False by (cases ds) simp_all
  have len: "0 < length ds" using False by simp
  show ?thesis
    using False len assms(1) unfolding read_number_def Let_def lz run ipv4_octet_def
    by (auto simp del: decimal_value_Cons; linarith)
qed

lemma read_octet_SomeD:
  assumes "read_number 10 3 256 False s = Some (v, rest)"
  shows "\<exists>ds. s = ds @ rest \<and> all_digits ds \<and> ipv4_octet ds = Some v
           \<and> (rest = [] \<or> digit_value (hd rest) = None)"
proof -
  let ?P = "\<lambda>c. digit_value c \<noteq> None"
  have s: "s = takeWhile ?P s @ dropWhile ?P s" by simp
  have d: "all_digits (takeWhile ?P s)"
    unfolding all_digits_def using set_takeWhileD [of _ ?P s] by blast
  have r: "dropWhile ?P s = [] \<or> digit_value (hd (dropWhile ?P s)) = None"
  proof (cases "dropWhile ?P s = []")
    case False
    then show ?thesis using hd_dropWhile [OF False] by blast
  qed simp
  from assms read_octet_run [OF d r] s have
    "map_option (\<lambda>v. (v, dropWhile ?P s)) (ipv4_octet (takeWhile ?P s)) = Some (v, rest)"
    by simp
  then show ?thesis using s d r by auto
qed

lemma octet_no_dot: "ipv4_octet ds = Some v \<Longrightarrow> all_digits ds \<and> CHR ''.'' \<notin> set ds"
proof -
  assume "ipv4_octet ds = Some v"
  then have dg: "all_digits ds" by (simp add: ipv4_octet_def split: if_splits)
  moreover have "CHR ''.'' \<notin> set ds"
  proof
    assume "CHR ''.'' \<in> set ds"
    with dg have "digit_value (CHR ''.'') \<noteq> None" by (simp add: all_digits_def)
    then show False by (simp add: dot_not_digit)
  qed
  ultimately show ?thesis by blast
qed

lemma read_ipv4_addr_eof:
  "read_ipv4_addr s = Some (x, []) \<longleftrightarrow>
     (\<exists>a b c d. map ipv4_octet (split_on (CHR ''.'') s) = [Some a, Some b, Some c, Some d]
        \<and> x = Ipv4Addr (of_nat a) (of_nat b) (of_nat c) (of_nat d))"
proof
  assume "read_ipv4_addr s = Some (x, [])"
  then obtain a r1 b r2 c r3 d where
    n1: "read_number 10 3 256 False s = Some (a, CHR ''.'' # r1)" and
    n2: "read_number 10 3 256 False r1 = Some (b, CHR ''.'' # r2)" and
    n3: "read_number 10 3 256 False r2 = Some (c, CHR ''.'' # r3)" and
    n4: "read_number 10 3 256 False r3 = Some (d, [])" and
    x: "x = Ipv4Addr (of_nat a) (of_nat b) (of_nat c) (of_nat d)"
    by (auto simp: read_ipv4_addr_def read_separator_def read_given_char_def
        split: option.splits list.splits if_splits)
  obtain ds1 ds2 ds3 ds4 where
    "s = ds1 @ CHR ''.'' # r1" "ipv4_octet ds1 = Some a"
    "r1 = ds2 @ CHR ''.'' # r2" "ipv4_octet ds2 = Some b"
    "r2 = ds3 @ CHR ''.'' # r3" "ipv4_octet ds3 = Some c"
    "r3 = ds4" "ipv4_octet ds4 = Some d"
    using read_octet_SomeD [OF n1] read_octet_SomeD [OF n2] read_octet_SomeD [OF n3]
      read_octet_SomeD [OF n4] by auto
  moreover have "split_on (CHR ''.'') (join_with (CHR ''.'') [ds1, ds2, ds3, ds4]) = [ds1, ds2, ds3, ds4]"
    using calculation by (intro split_on_join_with) (auto dest: octet_no_dot)
  ultimately show "\<exists>a b c d. map ipv4_octet (split_on (CHR ''.'') s) = [Some a, Some b, Some c, Some d]
        \<and> x = Ipv4Addr (of_nat a) (of_nat b) (of_nat c) (of_nat d)"
    using x by simp
next
  assume "\<exists>a b c d. map ipv4_octet (split_on (CHR ''.'') s) = [Some a, Some b, Some c, Some d]
        \<and> x = Ipv4Addr (of_nat a) (of_nat b) (of_nat c) (of_nat d)"
  then obtain a b c d ds1 ds2 ds3 ds4 where
    sp: "split_on (CHR ''.'') s = [ds1, ds2, ds3, ds4]" and
    o: "ipv4_octet ds1 = Some a" "ipv4_octet ds2 = Some b" "ipv4_octet ds3 = Some c" "ipv4_octet ds4 = Some d"
    and x: "x = Ipv4Addr (of_nat a) (of_nat b) (of_nat c) (of_nat d)"
    by (auto simp: map_eq_Cons_conv)
  have s: "s = ds1 @ CHR ''.'' # ds2 @ CHR ''.'' # ds3 @ CHR ''.'' # ds4"
    using join_with_split_on [of "CHR ''.''" s] by (simp add: sp)
  have dg: "all_digits ds1" "all_digits ds2" "all_digits ds3" "all_digits ds4"
    using o by (auto dest: octet_no_dot)
  show "read_ipv4_addr s = Some (x, [])"
    unfolding s x using o
    by (simp add: read_ipv4_addr_def read_separator_def read_given_char_def
        read_octet_run [OF dg(1)] read_octet_run [OF dg(2)] read_octet_run [OF dg(3)]
        read_octet_run [OF dg(4), of "[]", simplified] dot_not_digit)
qed

lemma ipv4_addr_from_str_eq: "ipv4_addr_from_str s = ipv4_from_str s"
proof (cases "\<exists>x. read_ipv4_addr s = Some (x, [])")
  case True
  then obtain x where "read_ipv4_addr s = Some (x, [])" by blast
  then show ?thesis
    using read_ipv4_addr_eof [of s x] by (auto simp: ipv4_addr_from_str_def ipv4_from_str_def)
next
  case False
  then have "ipv4_addr_from_str s = Inl Addr_invalid"
    by (auto simp: ipv4_addr_from_str_def split: option.split prod.split list.split)
  moreover have "ipv4_from_str s = Inl Addr_invalid"
    using False read_ipv4_addr_eof [of s]
    by (auto simp: ipv4_from_str_def split: list.split option.split)
  ultimately show ?thesis by simp
qed


lemma radix_digit_hex_char: "d < 16 \<Longrightarrow> radix_digit 16 (hex_char d) = Some d"
  by (auto simp: radix_digit_def hex_char_def Let_def)

lemma hex_string_digits:
  "(\<forall>c \<in> set (hex_string n). radix_digit 16 c \<noteq> None) \<and> radix_value 16 0 (hex_string n) = n"
proof (induction n rule: hex_string.induct)
  case (1 n)
  show ?case
  proof (cases "n < 16")
    case True
    then show ?thesis by (simp add: hex_string.simps radix_digit_hex_char radix_value_def)
  next
    case False
    with "1.IH" show ?thesis
      by (auto simp: hex_string.simps [of n] radix_digit_hex_char radix_value_def)
  qed
qed

lemma hex_string_not_Nil [simp]: "hex_string n \<noteq> []"
  by (simp add: hex_string.simps)

lemma hex_string_length: "n < 16 ^ Suc k \<Longrightarrow> length (hex_string n) \<le> Suc k"
proof (induction n arbitrary: k rule: hex_string.induct)
  case (1 n)
  show ?case
  proof (cases "n < 16")
    case True
    then show ?thesis by (simp add: hex_string.simps)
  next
    case False
    with "1.prems" obtain k' where k: "k = Suc k'" by (cases k) auto
    with "1.prems" have "n div 16 < 16 ^ Suc k'" by (simp add: div_less_iff_less_mult)
    with "1.IH" False have "length (hex_string (n div 16)) \<le> Suc k'" by simp
    with False k show ?thesis by (simp add: hex_string.simps [of n])
  qed
qed

lemma hex_digit_not_sep:
  "radix_digit 16 c \<noteq> None \<Longrightarrow> c \<noteq> CHR '':'' \<and> c \<noteq> CHR ''.'' \<and> c \<noteq> CHR ''/'' \<and> c \<noteq> CHR '' ''"
  by (auto simp: radix_digit_def Let_def)

lemma hex_string_no_sep:
  "CHR '':'' \<notin> set (hex_string n) \<and> CHR ''.'' \<notin> set (hex_string n)
   \<and> CHR ''/'' \<notin> set (hex_string n) \<and> CHR '' '' \<notin> set (hex_string n)"
  using hex_string_digits [of n] hex_digit_not_sep by blast

lemma radix_digit_colon: "radix_digit r (CHR '':'') = None"
  by (simp add: radix_digit_def)

lemma read_group_hex:
  assumes "n < 65536" and "rest = [] \<or> hd rest = CHR '':''"
  shows "read_number 16 4 65536 True (hex_string n @ rest) = Some (n, rest)"
proof -
  have "length (hex_string n) \<le> 4" using hex_string_length [of n 3] assms(1) by simp
  moreover have "rest = [] \<or> radix_digit 16 (hd rest) = None" using assms(2) radix_digit_colon by auto
  ultimately show ?thesis
    using read_digits_run [of 16 "hex_string n" rest 4 65536 0 0] hex_string_digits [of n] assms(1)
    by (simp add: read_number_def)
qed

lemma read_ipv4_addr_no_dot: "CHR ''.'' \<notin> set s \<Longrightarrow> read_ipv4_addr s = None"
proof (rule ccontr)
  assume nd: "CHR ''.'' \<notin> set s" and "read_ipv4_addr s \<noteq> None"
  then obtain v r1 r2 where n1: "read_number 10 3 256 False s = Some (v, r1)"
    and r1: "read_given_char (CHR ''.'') r1 = Some r2"
    by (auto simp: read_ipv4_addr_def read_separator_def bind_eq_Some_conv split: option.splits list.splits)
  obtain p where "s = p @ r1" using read_number_suffix [OF n1] by blast
  moreover have "r1 = CHR ''.'' # r2" using r1 by (auto simp: read_given_char_def split: list.splits if_splits)
  ultimately show False using nd by simp
qed

lemma join_hex_no_sep:
  "CHR ''.'' \<notin> set (join_with (CHR '':'') (map hex_string gs))
   \<and> CHR ''/'' \<notin> set (join_with (CHR '':'') (map hex_string gs))
   \<and> CHR '' '' \<notin> set (join_with (CHR '':'') (map hex_string gs))"
  by (induction gs) (auto simp: join_with_Cons hex_string_no_sep)

lemma read_sep_colon: "read_separator (CHR '':'') i p ((if 0 < i then [CHR '':''] else []) @ s) = p s"
  by (simp add: read_separator_def read_given_char_def)

lemma read_number_colon: "read_number r mx bd z (CHR '':'' # s) = None"
  by (simp add: read_number_def radix_digit_colon)

lemma read_number_Nil: "read_number r mx bd z [] = None"
  by (simp add: read_number_def)

lemma read_ipv4_addr_colon: "read_ipv4_addr (CHR '':'' # s) = None"
  by (simp add: read_ipv4_addr_def read_separator_def read_number_colon)

lemma read_groups_end: "read_groups limit i acc [] = (acc, False, [])"
  by (subst read_groups.simps)
    (simp add: read_separator_def read_given_char_def read_number_Nil read_ipv4_addr_no_dot)

lemma read_groups_colons:
  "read_groups limit i acc (CHR '':'' # CHR '':'' # s) = (acc, False, CHR '':'' # CHR '':'' # s)"
  by (subst read_groups.simps)
    (simp add: read_separator_def read_given_char_def read_number_colon read_ipv4_addr_colon)

lemma read_groups_no_colon:
  assumes "CHR '':'' \<notin> set s" and "CHR ''.'' \<notin> set s"
  shows "\<exists>acc' r. read_groups limit 0 [] s = (acc', False, r) \<and> length acc' \<le> 1 \<and> CHR '':'' \<notin> set r"
proof -
  have sep: "read_separator (CHR '':'') (Suc 0) p r = None" if "CHR '':'' \<notin> set r" for p :: "string \<Rightarrow> ('b \<times> string) option" and r
    using that by (cases r) (auto simp: read_separator_def read_given_char_def)
  have v4: "read_ipv4_addr s = None" using assms(2) by (rule read_ipv4_addr_no_dot)
  show ?thesis
  proof (cases "read_number 16 4 65536 True s")
    case None
    then show ?thesis using v4 assms(1)
      by (subst read_groups.simps) (simp add: read_separator_def)
  next
    case (Some gr)
    then obtain g r where gr: "read_number 16 4 65536 True s = Some (g, r)" by (cases gr) auto
    then obtain p where "s = p @ r" using read_number_suffix by blast
    then have r: "CHR '':'' \<notin> set r" using assms(1) by simp
    have "read_groups limit (Suc 0) [of_nat g] r = ([of_nat g], False, r)"
      using r by (subst read_groups.simps) (simp add: sep)
    then show ?thesis using v4 gr r assms(1)
      by (subst read_groups.simps) (auto simp: read_separator_def)
  qed
qed

lemma ip_addr_from_str_no_colon_dot:
  "CHR '':'' \<notin> set s \<Longrightarrow> CHR ''.'' \<notin> set s \<Longrightarrow> ip_addr_from_str s = Inl Addr_invalid"
proof -
  assume c: "CHR '':'' \<notin> set s" and d: "CHR ''.'' \<notin> set s"
  obtain acc r where rg: "read_groups 8 0 [] s = (acc, False, r)" and len: "length acc \<le> 1"
    and r: "CHR '':'' \<notin> set r"
    using read_groups_no_colon [OF c d, of 8] by blast
  have "read_given_char (CHR '':'') r = None"
    using r by (cases r) (auto simp: read_given_char_def)
  then have "read_ipv6_addr s = None"
    using len by (simp add: read_ipv6_addr_def rg)
  then show ?thesis
    using read_ipv4_addr_no_dot [OF d] by (simp add: ip_addr_from_str_def read_ip_addr_def)
qed

lemma read_groups_run:
  assumes "gs \<noteq> []" and "i + length gs \<le> limit" and "\<forall>g \<in> set gs. g < 65536"
    and "rest = [] \<or> hd rest = CHR '':''" and "CHR ''.'' \<notin> set rest"
  shows "read_groups limit i acc ((if 0 < i then [CHR '':''] else []) @ join_with (CHR '':'') (map hex_string gs) @ rest)
         = read_groups limit (i + length gs) (acc @ map of_nat gs) rest"
  using assms
proof (induction gs arbitrary: i acc)
  case Nil
  then show ?case by simp
next
  case (Cons g gs)
  define rest' where "rest' = (if gs = [] then rest else CHR '':'' # join_with (CHR '':'') (map hex_string gs) @ rest)"
  have str: "join_with (CHR '':'') (map hex_string (g # gs)) @ rest = hex_string g @ rest'"
    by (simp add: rest'_def join_with_Cons)
  have "CHR ''.'' \<notin> set (hex_string g @ rest')"
    using hex_string_no_sep [of g] join_hex_no_sep [of gs] Cons.prems(5) by (simp add: rest'_def)
  then have v4: "read_ipv4_addr (hex_string g @ rest') = None" by (rule read_ipv4_addr_no_dot)
  have grp: "read_number 16 4 65536 True (hex_string g @ rest') = Some (g, rest')"
    using Cons.prems(3,4) by (intro read_group_hex) (auto simp: rest'_def)
  define pre :: string where "pre = (if 0 < i then [CHR '':''] else [])"
  have sep: "\<And>p x. read_separator (CHR '':'') i p (pre @ x) = p x"
    by (simp add: pre_def read_sep_colon)
  have step: "read_groups limit i acc (pre @ hex_string g @ rest')
      = read_groups limit (Suc i) (acc @ [of_nat g]) rest'"
    using Cons.prems(2) by (subst read_groups.simps) (simp add: sep v4 grp)
  show ?case
  proof (cases "gs = []")
    case True
    with step str show ?thesis unfolding pre_def [symmetric] by (simp add: rest'_def)
  next
    case False
    then have "rest' = (if 0 < Suc i then [CHR '':''] else []) @ join_with (CHR '':'') (map hex_string gs) @ rest"
      by (simp add: rest'_def)
    with False Cons.prems Cons.IH [of "Suc i" "acc @ [of_nat g]"] step str show ?thesis
      unfolding pre_def [symmetric] by simp
  qed
qed

lemma ip_addr_from_str_ipv6: "ip_addr_from_str (ipv6_to_string a) = Inr (V6 a)"
proof (cases a)
  case (Ipv6Addr x1 x2 x3 x4 x5 x6 x7 x8)
  define gs where "gs = map unat [x1, x2, x3, x4, x5, x6, x7, x8]"
  have str: "ipv6_to_string a = join_with (CHR '':'') (map hex_string gs)"
    by (simp add: Ipv6Addr gs_def)
  have "\<forall>g \<in> set gs. g < 65536"
    using unsigned_less [where 'b = 16 and 'a = nat] by (simp add: gs_def)
  then have "read_groups 8 0 [] (ipv6_to_string a) = (map of_nat gs, False, [])"
    using read_groups_run [of gs 0 8 "[]" "[]"] str by (simp add: gs_def read_groups_end)
  moreover have "read_ipv4_addr (ipv6_to_string a) = None"
    using join_hex_no_sep [of gs] str read_ipv4_addr_no_dot by simp
  ultimately show ?thesis
    by (simp add: ip_addr_from_str_def read_ip_addr_def read_ipv6_addr_def ipv6_of_groups_def Ipv6Addr gs_def)
qed

lemma ip_addr_from_str_ipv4: "ipv4_from_str s = Inr x \<Longrightarrow> ip_addr_from_str s = Inr (V4 x)"
  unfolding ipv4_addr_from_str_eq [symmetric]
  by (auto simp: ipv4_addr_from_str_def ip_addr_from_str_def read_ip_addr_def
      split: option.splits prod.splits list.splits)

lemma ip_addr_from_str_ipv4_print: "ip_addr_from_str (ipv4_to_string x) = Inr (V4 x)"
  by (rule ip_addr_from_str_ipv4 [OF ipv4_from_str_to_string])

lemma ip_addr_from_str_print: "ip_addr_from_str (ip_addr_to_string a) = Inr a"
  by (cases a) (simp_all add: ip_addr_from_str_ipv4_print ip_addr_from_str_ipv6)

lemma ipv6_to_string_no_sep:
  "CHR ''/'' \<notin> set (ipv6_to_string a) \<and> CHR '' '' \<notin> set (ipv6_to_string a)"
proof (cases a)
  case (Ipv6Addr x1 x2 x3 x4 x5 x6 x7 x8)
  then show ?thesis
    using join_hex_no_sep [of "map unat [x1, x2, x3, x4, x5, x6, x7, x8]"] by simp
qed

lemma ip_addr_to_string_no_sep:
  "CHR ''/'' \<notin> set (ip_addr_to_string a) \<and> CHR '' '' \<notin> set (ip_addr_to_string a)"
  by (cases a) (simp_all add: slash_not_in_ipv4_to_string space_not_in_ipv4_to_string
      ipv6_to_string_no_sep)

lemma replicate_numeral_Cons: "replicate (numeral k) x = x # replicate (pred_numeral k) x"
  by (simp add: numeral_eq_Suc)

lemmas ip_parser_defs = ip_addr_from_str_def read_ip_addr_def read_ipv4_addr_def read_ipv6_addr_def
  read_number_def read_separator_def read_given_char_def radix_digit_def ipv6_of_groups_def
  ipv4_groups_def read_groups.simps replicate_numeral_Cons

end
