(* ===== verification/Ip_Display.thy ===== *)
theory Ip_Display
  imports Ip_Addr
begin

text \<open>
  The text form in which the standard library prints an address
  (\<open>Display for IpAddr\<close>), and the proof that \<^term>\<open>ip_addr_from_str\<close> reads
  every printed address back. For IPv6 this is the compressed form of RFC 5952:
  the first longest run of at least two zero groups becomes \<open>::\<close>, and an
  IPv4-mapped address is printed as \<open>::ffff:a.b.c.d\<close>; the round trip exercises
  the elision and the embedded-IPv4 branches of the parser. The lemmas show that
  \<^term>\<open>zero_span\<close> finds a run of zero groups (an invariant of its loop), that
  the parser reads the groups before and after \<open>::\<close>, and that the two bytes
  of \<open>to_be_bytes\<close> rebuild the group.
\<close>

subsection \<open>Printing\<close>


text \<open>\<open>Ipv6Addr::segments\<close>: the eight groups, most significant first.\<close>

definition ipv6_segments :: "ipv6_addr \<Rightarrow> 16 word list" where
  "ipv6_segments a = (case a of Ipv6Addr s0 s1 s2 s3 s4 s5 s6 s7 \<Rightarrow> [s0, s1, s2, s3, s4, s5, s6, s7])"

text \<open>\<open>u16::to_be_bytes\<close>: the high byte, then the low byte.\<close>

definition u16_to_be_bytes :: "16 word \<Rightarrow> 8 word \<times> 8 word" where
  "u16_to_be_bytes g = (ucast (drop_bit 8 g), ucast g)"

text \<open>\<open>Ipv6Addr::to_ipv4_mapped\<close>: the address \<open>::ffff:a.b.c.d\<close>, read from
  its sixteen octets \<open>[0, ..., 0, 0xff, 0xff, a, b, c, d]\<close>.\<close>

definition to_ipv4_mapped :: "ipv6_addr \<Rightarrow> ipv4_addr option" where
  "to_ipv4_mapped a = (case a of Ipv6Addr s0 s1 s2 s3 s4 s5 s6 s7 \<Rightarrow>
     if s0 = 0 \<and> s1 = 0 \<and> s2 = 0 \<and> s3 = 0 \<and> s4 = 0 \<and> s5 = 0xffff
     then Some (Ipv4Addr (fst (u16_to_be_bytes s6)) (snd (u16_to_be_bytes s6))
                         (fst (u16_to_be_bytes s7)) (snd (u16_to_be_bytes s7)))
     else None)"

text \<open>The loop of \<open>Display for Ipv6Addr\<close> that finds the longest run of zero
  groups: \<open>current\<close> is the run ending at the group before \<open>i\<close>, \<open>longest\<close> the
  first longest run seen so far; spans are (start, length) pairs and a run
  replaces \<open>longest\<close> only when it is strictly longer.\<close>

fun zero_span :: "nat \<Rightarrow> 16 word list \<Rightarrow> nat \<times> nat \<Rightarrow> nat \<times> nat \<Rightarrow> nat \<times> nat" where
  "zero_span i [] longest current = longest"
| "zero_span i (s # ss) longest current =
     (if s = 0 then
        (let current' = (if snd current = 0 then i else fst current, Suc (snd current));
             longest' = (if snd longest < snd current' then current' else longest)
         in zero_span (Suc i) ss longest' current')
      else zero_span (Suc i) ss longest (0, 0))"

text \<open>\<open>fmt_subslice\<close>: the groups in lowercase hexadecimal (\<open>{:x}\<close>), separated by colons.\<close>

definition fmt_subslice :: "16 word list \<Rightarrow> string" where
  "fmt_subslice gs = join_with (CHR '':'') (map (\<lambda>g. hex_string (unat g)) gs)"

text \<open>\<open>Display for Ipv6Addr\<close> without width or precision: an IPv4-mapped address
  as \<open>::ffff:\<close> and its dotted decimal; otherwise the longest run of zero
  groups, when it has at least two groups, replaced by \<open>::\<close>.\<close>

definition ipv6_display :: "ipv6_addr \<Rightarrow> string" where
  "ipv6_display a =
     (case to_ipv4_mapped a of
        Some v4 \<Rightarrow> ''::ffff:'' @ ipv4_to_string v4
      | None \<Rightarrow>
          (let segments = ipv6_segments a;
               (start, len) = zero_span 0 segments (0, 0) (0, 0)
           in if 1 < len
              then fmt_subslice (take start segments) @ ''::'' @ fmt_subslice (drop (start + len) segments)
              else fmt_subslice segments))"

text \<open>\<open>Display for IpAddr\<close> delegates to the family.\<close>

fun ip_display :: "ip_addr \<Rightarrow> string" where
  "ip_display (V4 a) = ipv4_to_string a"
| "ip_display (V6 a) = ipv6_display a"

text \<open>A span of a group list that lies inside it and holds only zero groups.\<close>

definition zero_run :: "16 word list \<Rightarrow> nat \<times> nat \<Rightarrow> bool" where
  "zero_run ys sp \<longleftrightarrow> fst sp + snd sp \<le> length ys \<and> (\<forall>j. fst sp \<le> j \<longrightarrow> j < fst sp + snd sp \<longrightarrow> ys ! j = 0)"

subsection \<open>Lemmas\<close>

lemma zero_run_append: "zero_run ys sp \<Longrightarrow> zero_run (ys @ zs) sp"
  by (auto simp: zero_run_def nth_append)

lemma zero_span_run:
  assumes "length pre = i" and "zero_run pre lg" and "zero_run pre cur"
    and "snd cur = 0 \<or> fst cur + snd cur = i"
  shows "zero_run (pre @ xs) (zero_span i xs lg cur)"
  using assms
proof (induction xs arbitrary: pre i lg cur)
  case Nil
  then show ?case by simp
next
  case (Cons x xs)
  show ?case
  proof (cases "x = 0")
    case True
    define cur' where "cur' = (if snd cur = 0 then i else fst cur, Suc (snd cur))"
    have c': "zero_run (pre @ [x]) cur'"
      using Cons.prems True by (auto simp: zero_run_def cur'_def nth_append less_Suc_eq)
    have l': "zero_run (pre @ [x]) (if snd lg < snd cur' then cur' else lg)"
      using c' zero_run_append [OF Cons.prems(2)] by simp
    have "fst cur' + snd cur' = Suc i" using Cons.prems(4) by (auto simp: cur'_def)
    then have "zero_run ((pre @ [x]) @ xs) (zero_span (Suc i) xs (if snd lg < snd cur' then cur' else lg) cur')"
      using Cons.IH [OF _ l' c'] Cons.prems(1) by simp
    moreover have "zero_span i (x # xs) lg cur
        = zero_span (Suc i) xs (if snd lg < snd cur' then cur' else lg) cur'"
      using True by (simp add: cur'_def Let_def)
    ultimately show ?thesis by simp
  next
    case False
    have "zero_run (pre @ [x]) lg" using Cons.prems(2) by (rule zero_run_append)
    moreover have "zero_run (pre @ [x]) (0, 0)" by (simp add: zero_run_def)
    ultimately have "zero_run ((pre @ [x]) @ xs) (zero_span (Suc i) xs lg (0, 0))"
      using Cons.IH [of "pre @ [x]" "Suc i" lg "(0, 0)"] Cons.prems(1) by simp
    with False show ?thesis by simp
  qed
qed

lemma zero_run_split:
  assumes "zero_run ys (s, l)"
  shows "ys = take s ys @ replicate l 0 @ drop (s + l) ys"
proof -
  have "take l (drop s ys) = replicate l 0"
    using assms by (intro replicate_eqI) (auto simp: zero_run_def in_set_conv_nth)
  then have "take (s + l) ys = take s ys @ replicate l 0" by (simp add: take_add)
  then show ?thesis by (metis append.assoc append_take_drop_id)
qed

lemma u16_to_be_bytes_groups:
  "of_nat (unat (fst (u16_to_be_bytes g)) * 256 + unat (snd (u16_to_be_bytes g))) = g"
proof -
  have lt: "unat g < 65536" using unsigned_less [of g] by simp
  have "unat g div 256 < 256" using lt by simp
  then have "unat (fst (u16_to_be_bytes g)) = unat g div 256"
    by (simp add: u16_to_be_bytes_def unsigned_ucast_eq unat_drop_bit_eq drop_bit_eq_div
        take_bit_eq_mod unat_div_distrib del: drop_bit_eq_div [where 'a = "16 word"])
  moreover have "unat (snd (u16_to_be_bytes g)) = unat g mod 256"
    by (simp add: u16_to_be_bytes_def unsigned_ucast_eq take_bit_eq_mod)
  ultimately show ?thesis by simp
qed

lemma map_of_nat_unat: "map (\<lambda>g. of_nat g :: 16 word) (map unat gs) = gs"
  by (induction gs) simp_all

lemma fmt_subslice_no_sep:
  "CHR ''.'' \<notin> set (fmt_subslice gs) \<and> CHR ''/'' \<notin> set (fmt_subslice gs) \<and> CHR '' '' \<notin> set (fmt_subslice gs)"
  using join_hex_no_sep [of "map unat gs"] by (simp add: fmt_subslice_def comp_def)

lemma fmt_subslice_Nil [simp]: "fmt_subslice [] = []"
  by (simp add: fmt_subslice_def)

lemma read_groups_fmt:
  assumes "length gs \<le> limit" and "rest = [] \<or> hd rest = CHR '':''" and "CHR ''.'' \<notin> set rest"
  shows "read_groups limit 0 [] (fmt_subslice gs @ rest) = read_groups limit (length gs) gs rest"
proof (cases "gs = []")
  case False
  have "\<forall>g \<in> set (map unat gs). g < 65536" using unsigned_less [where 'b = 16 and 'a = nat] by auto
  then show ?thesis
    using read_groups_run [of "map unat gs" 0 limit rest "[]"] assms False
    by (simp add: fmt_subslice_def comp_def map_of_nat_unat)
qed simp

lemma read_ipv6_compressed:
  assumes "length hs + l + length ts = 8" and "1 < l"
  shows "read_ipv6_addr (fmt_subslice hs @ CHR '':'' # CHR '':'' # fmt_subslice ts)
           = Some (ipv6_of_groups (hs @ replicate l 0 @ ts), [])"
proof -
  have "read_groups 8 0 [] (fmt_subslice hs @ CHR '':'' # CHR '':'' # fmt_subslice ts)
      = (hs, False, CHR '':'' # CHR '':'' # fmt_subslice ts)"
    using assms fmt_subslice_no_sep [of ts] by (simp add: read_groups_fmt read_groups_colons)
  moreover have "read_groups (8 - (length hs + 1)) 0 [] (fmt_subslice ts) = (ts, False, [])"
    using assms read_groups_fmt [of ts "8 - (length hs + 1)" "[]"] by (simp add: read_groups_end)
  moreover have "take (8 - length ts) (hs @ replicate (8 - length hs) 0) = hs @ replicate l 0"
    using assms by simp
  ultimately show ?thesis
    using assms by (simp add: read_ipv6_addr_def read_given_char_def)
qed


lemma read_ipv4_addr_print: "read_ipv4_addr (ipv4_to_string v) = Some (v, [])"
  using ipv4_addr_from_str_eq [of "ipv4_to_string v"] ipv4_from_str_to_string [of v]
  by (auto simp: ipv4_addr_from_str_def split: option.splits prod.splits list.splits)

lemma hex_string_ffff: "hex_string 65535 = ''ffff''"
proof -
  have f: "char_of (102::nat) = CHR ''f''" using char_of_char [of "CHR ''f''"] by simp
  show ?thesis by (simp add: hex_string.simps hex_char_def f)
qed

lemma read_ipv6_mapped:
  "read_ipv6_addr (CHR '':'' # CHR '':'' # ''ffff:'' @ ipv4_to_string v)
     = Some (ipv6_of_groups ([0, 0, 0, 0, 0, 0xffff] @ ipv4_groups v), [])"
proof -
  have "read_ipv4_addr (''ffff:'' @ ipv4_to_string v) = None"
    by (simp add: read_ipv4_addr_def read_separator_def read_number_def radix_digit_def)
  moreover have "read_number 16 4 65536 True (''ffff'' @ CHR '':'' # ipv4_to_string v)
      = Some (65535, CHR '':'' # ipv4_to_string v)"
    using read_group_hex [of 65535 "CHR '':'' # ipv4_to_string v"] by (simp add: hex_string_ffff)
  ultimately have "read_groups 7 0 [] (''ffff:'' @ ipv4_to_string v)
      = read_groups 7 1 [0xffff] (CHR '':'' # ipv4_to_string v)"
    by (subst read_groups.simps) (simp add: read_separator_def)
  also have "\<dots> = ([0xffff] @ ipv4_groups v, True, [])"
    by (subst read_groups.simps) (simp add: read_separator_def read_given_char_def read_ipv4_addr_print)
  finally have "read_groups 7 0 [] (''ffff:'' @ ipv4_to_string v) = ([0xffff] @ ipv4_groups v, True, [])" .
  moreover have "length (ipv4_groups v) = 2" by (simp add: ipv4_groups_def split: ipv4_addr.split)
  ultimately show ?thesis
    by (simp add: read_ipv6_addr_def read_given_char_def read_groups_colons numeral_eq_Suc)
qed


lemma ipv6_of_groups_segments: "ipv6_of_groups (ipv6_segments a) = a"
  by (cases a) (simp add: ipv6_of_groups_def ipv6_segments_def)

lemma length_ipv6_segments: "length (ipv6_segments a) = 8"
  by (cases a) (simp add: ipv6_segments_def)

lemma ipv6_to_string_fmt: "ipv6_to_string a = fmt_subslice (ipv6_segments a)"
  by (cases a) (simp add: fmt_subslice_def ipv6_segments_def)

lemma ipv4_groups_bytes:
  "ipv4_groups (Ipv4Addr (fst (u16_to_be_bytes g)) (snd (u16_to_be_bytes g))
                         (fst (u16_to_be_bytes h)) (snd (u16_to_be_bytes h))) = [g, h]"
  by (simp only: ipv4_groups_def ipv4_addr.case u16_to_be_bytes_groups)

lemma to_ipv4_mapped_SomeD:
  "to_ipv4_mapped a = Some v \<Longrightarrow> a = ipv6_of_groups ([0, 0, 0, 0, 0, 0xffff] @ ipv4_groups v)"
  by (cases a) (auto simp: to_ipv4_mapped_def ipv4_groups_bytes ipv6_of_groups_def split: if_splits)

lemma zero_span_segments:
  "zero_run (ipv6_segments a) (zero_span 0 (ipv6_segments a) (0, 0) (0, 0))"
  using zero_span_run [of "[]" 0 "(0, 0)" "(0, 0)" "ipv6_segments a"] by (simp add: zero_run_def)

lemma ip_addr_from_str_ipv6_display: "ip_addr_from_str (ipv6_display a) = Inr (V6 a)"
proof (cases "to_ipv4_mapped a")
  case (Some v)
  then have "ipv6_display a = CHR '':'' # CHR '':'' # ''ffff:'' @ ipv4_to_string v"
    by (simp add: ipv6_display_def)
  then show ?thesis
    using read_ipv6_mapped [of v] to_ipv4_mapped_SomeD [OF Some]
    by (simp add: ip_addr_from_str_def read_ip_addr_def read_ipv4_addr_colon)
next
  case None
  define segs where "segs = ipv6_segments a"
  obtain st ln where zs: "zero_span 0 segs (0, 0) (0, 0) = (st, ln)" by fastforce
  have run: "zero_run segs (st, ln)" using zero_span_segments [of a] zs by (simp add: segs_def)
  show ?thesis
  proof (cases "1 < ln")
    case True
    have disp: "ipv6_display a = fmt_subslice (take st segs) @ CHR '':'' # CHR '':'' # fmt_subslice (drop (st + ln) segs)"
      using None zs True by (simp add: ipv6_display_def segs_def Let_def)
    have len: "length (take st segs) + ln + length (drop (st + ln) segs) = 8"
      using run by (simp add: zero_run_def segs_def length_ipv6_segments)
    have "read_ipv6_addr (ipv6_display a) = Some (a, [])"
      using read_ipv6_compressed [OF len True] zero_run_split [OF run, symmetric] disp
      by (simp add: segs_def ipv6_of_groups_segments)
    moreover have "read_ipv4_addr (ipv6_display a) = None"
      using fmt_subslice_no_sep disp by (simp add: read_ipv4_addr_no_dot)
    ultimately show ?thesis by (simp add: ip_addr_from_str_def read_ip_addr_def)
  next
    case False
    then have "ipv6_display a = ipv6_to_string a"
      using None zs by (simp add: ipv6_display_def ipv6_to_string_fmt segs_def Let_def)
    then show ?thesis by (simp add: ip_addr_from_str_ipv6)
  qed
qed

lemma ip_addr_from_str_display: "ip_addr_from_str (ip_display a) = Inr a"
  by (cases a) (simp_all add: ip_addr_from_str_ipv4_print ip_addr_from_str_ipv6_display)

lemma ip_display_no_sep:
  "CHR ''/'' \<notin> set (ip_display a) \<and> CHR '' '' \<notin> set (ip_display a)"
  by (cases a) (auto simp: ipv6_display_def fmt_subslice_no_sep slash_not_in_ipv4_to_string
      space_not_in_ipv4_to_string Let_def split: option.splits prod.splits)

lemmas ipv6_display_eval = ipv6_display_def to_ipv4_mapped_def ipv6_segments_def fmt_subslice_def
  hex_string.simps hex_char_def char_of_eq_iff Let_def

subsection \<open>Examples\<close>

text \<open>The outputs of \<open>Display for Ipv6Addr\<close> on addresses of each shape.\<close>

lemma ipv6_display_examples:
  "ipv6_display (Ipv6Addr 0xfe80 0 0 0 0 0 0 1) = ''fe80::1''"
  "ipv6_display (Ipv6Addr 0x2001 0xdb8 0 0 1 0 0 1) = ''2001:db8::1:0:0:1''"
  "ipv6_display (Ipv6Addr 0 0 0 0 0 0 0 0) = ''::''"
  "ipv6_display (Ipv6Addr 0 0 0 0 0 0xffff 0x0102 0x0304) = ''::ffff:1.2.3.4''"
  "ipv6_display (Ipv6Addr 1 0 1 0 1 0 1 0) = ''1:0:1:0:1:0:1:0''"
  by (simp_all add: ipv6_display_eval u16_to_be_bytes_def dec_string.simps)

end
