(* ===== verification/Net_Addr.thy ===== *)
theory Net_Addr
  imports Ip_Display
begin

text \<open>
  The address/mask value type of \<open>settings.rs\<close> (\<open>NetAddr\<close>) and its
  coercion. \<open>NetAddr::from_sudo_option\<close> locates the first \<open>/\<close>, defaulting
  to the length of the string, parses the part before it as an address, then
  slices the part after it with \<open>s[mid + 1 ..]\<close>. Without a \<open>/\<close> that
  slice starts one byte past the end and panics, unless the address part has
  already failed to parse. The address parser is a parameter, so the general
  lemmas hold for any address type; the round trips and examples instantiate it
  with \<^term>\<open>ip_addr_from_str\<close>, the model of \<open>IpAddr::from_str\<close> in
  \<open>Ip_Addr\<close>, on addresses of either family.
\<close>

subsection \<open>The value type and its coercion\<close>

record 'a net_addr =
  addr :: 'a
  mask' :: 'a

definition NET_ADDR_SEPARATOR :: char where
  "NET_ADDR_SEPARATOR = CHR '' ''"

definition net_addr_from_sudo_option ::
    "(string \<Rightarrow> parse_error + 'a) \<Rightarrow> string \<Rightarrow> 'a net_addr result" where
  "net_addr_from_sudo_option parse_addr s =
     (let bytes = s;
          mid = (case position (\<lambda>b. b = CHR ''/'') bytes of Some i \<Rightarrow> i | None \<Rightarrow> length bytes)
      in case parse_addr (take mid s) of
           Inl e \<Rightarrow> Inl (Parse_failed e)
         | Inr a \<Rightarrow>
             if length s < mid + 1 then Inl (Panic ''byte index out of bounds'')
             else (case parse_addr (drop (mid + 1) s) of
                     Inl e \<Rightarrow> Inl (Parse_failed e)
                   | Inr m \<Rightarrow> Inr \<lparr>addr = a, mask' = m\<rparr>))"

text \<open>\<open>Vec<NetAddr>\<close> through \<open>FromSudoOptionList\<close> with \<open>SEPARATOR = ' '\<close>.\<close>

definition net_addrs_from_sudo_option ::
    "(string \<Rightarrow> parse_error + 'a) \<Rightarrow> string \<Rightarrow> 'a net_addr list result" where
  "net_addrs_from_sudo_option parse_addr =
     from_sudo_option_list NET_ADDR_SEPARATOR (net_addr_from_sudo_option parse_addr)"

text \<open>A \<open>NetAddr\<close> written as \<open>address/mask\<close>, the form the option carries.\<close>

definition net_addr_to_string :: "ip_addr net_addr \<Rightarrow> string" where
  "net_addr_to_string na = ip_addr_to_string (addr na) @ CHR ''/'' # ip_addr_to_string (mask' na)"

subsection \<open>Lemmas\<close>

lemma net_addr_position_slash:
  "CHR ''/'' \<notin> set a \<Longrightarrow> position (\<lambda>b. b = CHR ''/'') (a @ CHR ''/'' # m) = Some (length a)"
  by (rule position_append_hit) auto

lemma net_addr_parse_slash:
  "CHR ''/'' \<notin> set a \<Longrightarrow>
     net_addr_from_sudo_option parse_addr (a @ CHR ''/'' # m) =
       (case parse_addr a of
          Inl e \<Rightarrow> Inl (Parse_failed e)
        | Inr x \<Rightarrow> (case parse_addr m of Inl e \<Rightarrow> Inl (Parse_failed e) | Inr y \<Rightarrow> Inr \<lparr>addr = x, mask' = y\<rparr>))"
  by (simp add: net_addr_from_sudo_option_def net_addr_position_slash split: sum.split)

lemma net_addr_parse_no_slash:
  "CHR ''/'' \<notin> set s \<Longrightarrow>
     net_addr_from_sudo_option parse_addr s =
       (case parse_addr s of
          Inl e \<Rightarrow> Inl (Parse_failed e)
        | Inr _ \<Rightarrow> Inl (Panic ''byte index out of bounds''))"
proof -
  assume "CHR ''/'' \<notin> set s"
  then have none: "position (\<lambda>b. b = CHR ''/'') s = None" by auto
  show ?thesis
    unfolding net_addr_from_sudo_option_def Let_def none by (simp split: sum.split)
qed

lemma net_addr_to_string_parse:
  "net_addr_from_sudo_option ip_addr_from_str (net_addr_to_string na) = Inr na
   \<and> NET_ADDR_SEPARATOR \<notin> set (net_addr_to_string na)"
  by (simp add: net_addr_to_string_def net_addr_parse_slash ip_addr_to_string_no_sep
      ip_addr_from_str_print NET_ADDR_SEPARATOR_def)

subsection \<open>Properties\<close>


text \<open>
  C10 (error). The address list fails exactly when one of its space-separated
  tokens fails, with the error of the first failing token, every token before
  it having parsed; no partial list is kept.
\<close>

theorem net_addrs_from_sudo_option_Inl_iff:
  "net_addrs_from_sudo_option parse_addr s = Inl e \<longleftrightarrow>
     (\<exists>pre tok post. split_on NET_ADDR_SEPARATOR s = pre @ tok # post
        \<and> list_all (\<lambda>x. \<not> isl (net_addr_from_sudo_option parse_addr x)) pre
        \<and> net_addr_from_sudo_option parse_addr tok = Inl e)"
  by (simp add: net_addrs_from_sudo_option_def from_sudo_option_list_Inl_iff)

text \<open>
  C11 (roundtrip). A non-empty list of address/mask pairs, of either family,
  printed as \<open>a/m\<close> tokens joined by single spaces and read with
  \<open>IpAddr::from_str\<close>, is read back as exactly that list.
\<close>

theorem net_addrs_roundtrip:
  "nas \<noteq> [] \<Longrightarrow>
     net_addrs_from_sudo_option ip_addr_from_str (join_with NET_ADDR_SEPARATOR (map net_addr_to_string nas))
     = Inr nas"
proof -
  assume ne: "nas \<noteq> []"
  have "\<forall>na \<in> set nas. net_addr_from_sudo_option ip_addr_from_str (net_addr_to_string na) = Inr na
            \<and> NET_ADDR_SEPARATOR \<notin> set (net_addr_to_string na)"
    by (simp add: net_addr_to_string_parse)
  with ne show ?thesis
    using from_sudo_option_list_join [of nas "net_addr_from_sudo_option ip_addr_from_str"
        net_addr_to_string id NET_ADDR_SEPARATOR]
    unfolding net_addrs_from_sudo_option_def by simp
qed

text \<open>
  C12 (functional). With a \<open>/\<close> in the token, the part before the first one is
  parsed as the address and the part after it as the mask; the first of the two
  that fails gives the error.
\<close>

theorem net_addr_from_sudo_option_slash:
  "CHR ''/'' \<notin> set a \<Longrightarrow>
     net_addr_from_sudo_option parse_addr (a @ CHR ''/'' # m) =
       (case parse_addr a of
          Inl e \<Rightarrow> Inl (Parse_failed e)
        | Inr x \<Rightarrow> (case parse_addr m of Inl e \<Rightarrow> Inl (Parse_failed e) | Inr y \<Rightarrow> Inr \<lparr>addr = x, mask' = y\<rparr>))"
  by (rule net_addr_parse_slash)

text \<open>
  C13 (safety). Without a \<open>/\<close>, the coercion never reports a missing mask: a
  token whose address part fails gives that parse error, and a token that is a
  valid address on its own makes \<open>s[mid + 1 ..]\<close> start past the end of the
  string, which panics.
\<close>

theorem net_addr_from_sudo_option_no_slash:
  "CHR ''/'' \<notin> set s \<Longrightarrow>
     net_addr_from_sudo_option parse_addr s =
       (case parse_addr s of
          Inl e \<Rightarrow> Inl (Parse_failed e)
        | Inr _ \<Rightarrow> Inl (Panic ''byte index out of bounds''))"
  by (rule net_addr_parse_no_slash)

text \<open>
  C14 (roundtrip). An address and a mask of either family, printed the way
  the standard library displays them (dotted decimal; compressed IPv6 with
  \<open>::\<close> for the longest run of zero groups, or \<open>::ffff:a.b.c.d\<close> for an
  IPv4-mapped address) and joined by \<open>/\<close>, are read back by the coercion
  with \<open>IpAddr::from_str\<close> as exactly that address and mask. Nothing relates
  the two halves, so an IPv4 network with an IPv6 mask is accepted as written.
\<close>

theorem net_addr_display_roundtrip:
  "net_addr_from_sudo_option ip_addr_from_str (ip_display a @ CHR ''/'' # ip_display m)
     = Inr \<lparr>addr = a, mask' = m\<rparr>"
  by (simp add: net_addr_parse_slash ip_display_no_sep ip_addr_from_str_display)

text \<open>
  C15 (functional). The mask is parsed as an address, never as a prefix length:
  a displayed address of either family followed by \<open>/\<close> and any decimal
  number (the CIDR form, as in \<open>10.0.0.0/24\<close>) is rejected with an address
  parse error, whatever the number.
\<close>

theorem net_addr_prefix_length_rejected:
  "net_addr_from_sudo_option ip_addr_from_str (ip_display a @ CHR ''/'' # dec_string n)
     = Inl (Parse_failed Addr_invalid)"
  using dec_string_no_sep [of n]
  by (simp add: net_addr_parse_slash ip_display_no_sep ip_addr_from_str_display
      ip_addr_from_str_no_colon_dot)

subsection \<open>Witnesses\<close>

lemma net_addr_from_sudo_option_slash_witness:
  "net_addr_from_sudo_option ip_addr_from_str (''192.168.1.0'' @ CHR ''/'' # ''255.255.255.0'')
     = Inr \<lparr>addr = V4 (Ipv4Addr 192 168 1 0), mask' = V4 (Ipv4Addr 255 255 255 0)\<rparr>"
proof -
  have h: "CHR ''/'' \<notin> set ''192.168.1.0''" by simp
  show ?thesis
    using net_addr_from_sudo_option_slash [OF h, of ip_addr_from_str "''255.255.255.0''"]
    by (simp add: ip_parser_defs)
qed

lemma net_addr_from_sudo_option_no_slash_witness:
  "net_addr_from_sudo_option ip_addr_from_str ''10.0.0.1'' = Inl (Panic ''byte index out of bounds'') \<and>
   net_addr_from_sudo_option ip_addr_from_str ''10.0.0'' = Inl (Parse_failed Addr_invalid)"
proof -
  have h1: "CHR ''/'' \<notin> set ''10.0.0.1''" by simp
  have h2: "CHR ''/'' \<notin> set ''10.0.0''" by simp
  show ?thesis
    using net_addr_from_sudo_option_no_slash [OF h1, of ip_addr_from_str]
      net_addr_from_sudo_option_no_slash [OF h2, of ip_addr_from_str]
    by (simp add: ip_parser_defs)
qed


lemma net_addrs_roundtrip_witness:
  "net_addrs_from_sudo_option ip_addr_from_str
     (join_with NET_ADDR_SEPARATOR (map net_addr_to_string
        [\<lparr>addr = V4 (Ipv4Addr 10 0 0 0), mask' = V4 (Ipv4Addr 255 0 0 0)\<rparr>,
         \<lparr>addr = V6 (Ipv6Addr 0xfe80 0 0 0 0 0 0 0), mask' = V6 (Ipv6Addr 0xffff 0xffff 0xffff 0xffff 0 0 0 0)\<rparr>]))
   = Inr [\<lparr>addr = V4 (Ipv4Addr 10 0 0 0), mask' = V4 (Ipv4Addr 255 0 0 0)\<rparr>,
          \<lparr>addr = V6 (Ipv6Addr 0xfe80 0 0 0 0 0 0 0), mask' = V6 (Ipv6Addr 0xffff 0xffff 0xffff 0xffff 0 0 0 0)\<rparr>]"
  by (rule net_addrs_roundtrip) simp

end
