(* ===== verification/Settings.thy ===== *)
theory Settings
  imports Option_Map Net_Addr
begin

text \<open>
  The model of \<open>Settings\<close> in \<open>src/sudo_plugin/src/plugin/settings.rs\<close>: the
  record of typed fields, \<open>Settings::new\<close> and \<open>Settings::flags\<close>.
  \<open>Settings::new\<close> evaluates the struct literal's fields in the order they
  are written: the three required strings with \<open>?\<close> (\<^term>\<open>bind_res\<close>),
  which returns the first error; the optional fields with \<open>.ok()\<close>
  (\<^term>\<open>res_ok\<close>), \<open>.unwrap_or(false)\<close> and \<open>.unwrap_or_else(|_| vec![])\<close>
  (\<^term>\<open>res_unwrap_or\<close>), which turn every error into the default but let a
  panic of the coercion through; and the map itself, kept as \<open>raw\<close>. The
  address parser is the parameter \<open>parse_addr\<close> of the \<open>NetAddr\<close> coercion.
  The lemmas give every field of a constructed value in terms of
  \<^term>\<open>get_str\<close> on the map, the exact failure cases, and the flag list
  together with a positional reader that recovers the fields it encodes.
\<close>

record 'a settings =
  bsd_auth_type :: "string option"
  close_from :: "64 word option"
  debug_flags :: "string option"
  debug_level :: "64 word option"
  ignore_ticket :: bool
  implied_shell :: bool
  login_class :: "string option"
  login_shell :: bool
  max_groups :: "64 word option"
  network_addrs :: "'a net_addr list"
  noninteractive :: bool
  plugin_dir :: string
  plugin_path :: string
  preserve_environment :: bool
  preserve_groups :: bool
  progname :: string
  prompt :: "string option"
  remote_host :: "string option"
  run_shell :: bool
  runas_group :: "string option"
  runas_user :: "string option"
  selinux_role :: "string option"
  selinux_type :: "string option"
  set_home :: bool
  sudoedit :: bool
  raw :: option_map

definition settings_new :: "(string \<Rightarrow> parse_error + 'a) \<Rightarrow> option_map \<Rightarrow> 'a settings result" where
  "settings_new parse_addr raw_map =
     bind_res (get from_sudo_option_string raw_map ''plugin_dir'') (\<lambda>plugin_dir.
     bind_res (get from_sudo_option_string raw_map ''plugin_path'') (\<lambda>plugin_path.
     bind_res (get from_sudo_option_string raw_map ''progname'') (\<lambda>progname.
     bind_res (res_ok (get from_sudo_option_string raw_map ''bsd_auth_type'')) (\<lambda>bsd_auth_type.
     bind_res (res_ok (get from_sudo_option_u64 raw_map ''closefrom'')) (\<lambda>close_from.
     bind_res (res_ok (get from_sudo_option_string raw_map ''debug_flags'')) (\<lambda>debug_flags.
     bind_res (res_ok (get from_sudo_option_u64 raw_map ''debug_level'')) (\<lambda>debug_level.
     bind_res (res_unwrap_or False (get from_sudo_option_bool raw_map ''ignore_ticket'')) (\<lambda>ignore_ticket.
     bind_res (res_unwrap_or False (get from_sudo_option_bool raw_map ''implied_shell'')) (\<lambda>implied_shell.
     bind_res (res_ok (get from_sudo_option_string raw_map ''login_class'')) (\<lambda>login_class.
     bind_res (res_unwrap_or False (get from_sudo_option_bool raw_map ''login_shell'')) (\<lambda>login_shell.
     bind_res (res_ok (get from_sudo_option_u64 raw_map ''max_groups'')) (\<lambda>max_groups.
     bind_res (res_unwrap_or [] (get (net_addrs_from_sudo_option parse_addr) raw_map ''network_addrs''))
       (\<lambda>network_addrs.
     bind_res (res_unwrap_or False (get from_sudo_option_bool raw_map ''noninteractive'')) (\<lambda>noninteractive.
     bind_res (res_unwrap_or False (get from_sudo_option_bool raw_map ''preserve_environment''))
       (\<lambda>preserve_environment.
     bind_res (res_unwrap_or False (get from_sudo_option_bool raw_map ''preserve_groups'')) (\<lambda>preserve_groups.
     bind_res (res_ok (get from_sudo_option_string raw_map ''prompt'')) (\<lambda>prompt.
     bind_res (res_ok (get from_sudo_option_string raw_map ''remote_host'')) (\<lambda>remote_host.
     bind_res (res_unwrap_or False (get from_sudo_option_bool raw_map ''run_shell'')) (\<lambda>run_shell.
     bind_res (res_ok (get from_sudo_option_string raw_map ''runas_group'')) (\<lambda>runas_group.
     bind_res (res_ok (get from_sudo_option_string raw_map ''runas_user'')) (\<lambda>runas_user.
     bind_res (res_ok (get from_sudo_option_string raw_map ''selinux_role'')) (\<lambda>selinux_role.
     bind_res (res_ok (get from_sudo_option_string raw_map ''selinux_type'')) (\<lambda>selinux_type.
     bind_res (res_unwrap_or False (get from_sudo_option_bool raw_map ''set_home'')) (\<lambda>set_home.
     bind_res (res_unwrap_or False (get from_sudo_option_bool raw_map ''sudoedit'')) (\<lambda>sudoedit.
     Inr \<lparr>bsd_auth_type = bsd_auth_type, close_from = close_from, debug_flags = debug_flags,
          debug_level = debug_level, ignore_ticket = ignore_ticket, implied_shell = implied_shell,
          login_class = login_class, login_shell = login_shell, max_groups = max_groups,
          network_addrs = network_addrs, noninteractive = noninteractive,
          plugin_dir = plugin_dir, plugin_path = plugin_path,
          preserve_environment = preserve_environment, preserve_groups = preserve_groups,
          progname = progname, prompt = prompt, remote_host = remote_host, run_shell = run_shell,
          runas_group = runas_group, runas_user = runas_user, selinux_role = selinux_role,
          selinux_type = selinux_type, set_home = set_home, sudoedit = sudoedit,
          raw = raw_map\<rparr>)))))))))))))))))))))))))"

text \<open>\<open>Settings::flags\<close>: four conditional pushes onto an empty vector.\<close>

definition flags :: "'a settings \<Rightarrow> bytes list" where
  "flags s =
     (let fs = [];
          fs = (case runas_user s of Some u \<Rightarrow> fs @ [''-u''] @ [u] | None \<Rightarrow> fs);
          fs = (case runas_group s of Some g \<Rightarrow> fs @ [''-g''] @ [g] | None \<Rightarrow> fs);
          fs = (if login_shell s then fs @ [''-i''] else fs);
          fs = (if run_shell s then fs @ [''-s''] else fs)
      in fs)"

subsection \<open>Reference readings\<close>

text \<open>The three keys whose absence aborts construction, in evaluation order.\<close>

definition required_keys :: "string list" where
  "required_keys = [''plugin_dir'', ''plugin_path'', ''progname'']"


text \<open>
  The receiving command's positional reading of a flag list: an optional
  \<open>-u user\<close>, an optional \<open>-g group\<close>, an optional \<open>-i\<close>, an optional
  \<open>-s\<close>, in this order and nothing else.
\<close>

definition take_arg_flag :: "bytes \<Rightarrow> bytes list \<Rightarrow> bytes option \<times> bytes list" where
  "take_arg_flag f ts =
     (case ts of t # x # rest \<Rightarrow> if t = f then (Some x, rest) else (None, ts) | _ \<Rightarrow> (None, ts))"

definition take_switch :: "bytes \<Rightarrow> bytes list \<Rightarrow> bool \<times> bytes list" where
  "take_switch f ts = (case ts of t # rest \<Rightarrow> if t = f then (True, rest) else (False, ts) | [] \<Rightarrow> (False, ts))"

definition parse_flags :: "bytes list \<Rightarrow> (string option \<times> string option \<times> bool \<times> bool) option" where
  "parse_flags ts =
     (let (u, ts) = take_arg_flag ''-u'' ts;
          (g, ts) = take_arg_flag ''-g'' ts;
          (i, ts) = take_switch ''-i'' ts;
          (sh, ts) = take_switch ''-s'' ts
      in if ts = [] then Some (u, g, i, sh) else None)"


text \<open>
  The value \<open>Settings::new\<close> builds once the three required strings and the
  address list are known: every optional field read off the map.
\<close>

definition settings_of ::
    "option_map \<Rightarrow> string \<Rightarrow> string \<Rightarrow> string \<Rightarrow> 'a net_addr list \<Rightarrow> 'a settings" where
  "settings_of om d p n na =
     \<lparr>bsd_auth_type = get_str om ''bsd_auth_type'',
      close_from = (case get from_sudo_option_u64 om ''closefrom'' of Inr x \<Rightarrow> Some x | Inl _ \<Rightarrow> None),
      debug_flags = get_str om ''debug_flags'',
      debug_level = (case get from_sudo_option_u64 om ''debug_level'' of Inr x \<Rightarrow> Some x | Inl _ \<Rightarrow> None),
      ignore_ticket = (get_str om ''ignore_ticket'' = Some ''true''),
      implied_shell = (get_str om ''implied_shell'' = Some ''true''),
      login_class = get_str om ''login_class'',
      login_shell = (get_str om ''login_shell'' = Some ''true''),
      max_groups = (case get from_sudo_option_u64 om ''max_groups'' of Inr x \<Rightarrow> Some x | Inl _ \<Rightarrow> None),
      network_addrs = na,
      noninteractive = (get_str om ''noninteractive'' = Some ''true''),
      plugin_dir = d, plugin_path = p,
      preserve_environment = (get_str om ''preserve_environment'' = Some ''true''),
      preserve_groups = (get_str om ''preserve_groups'' = Some ''true''),
      progname = n, prompt = get_str om ''prompt'', remote_host = get_str om ''remote_host'',
      run_shell = (get_str om ''run_shell'' = Some ''true''),
      runas_group = get_str om ''runas_group'', runas_user = get_str om ''runas_user'',
      selinux_role = get_str om ''selinux_role'', selinux_type = get_str om ''selinux_type'',
      set_home = (get_str om ''set_home'' = Some ''true''),
      sudoedit = (get_str om ''sudoedit'' = Some ''true''),
      raw = om\<rparr>"


subsection \<open>Lemmas\<close>

lemma get_not_panic: "never_panics p \<Longrightarrow> \<not> is_panic (get p om k)"
  by (auto simp: get_def never_panics_def is_panic_def split: option.split sum.split error.split)

lemma res_ok_get [simp]:
  "never_panics p \<Longrightarrow> res_ok (get p om k) = Inr (case get p om k of Inr x \<Rightarrow> Some x | Inl _ \<Rightarrow> None)"
  by (simp add: get_not_panic)

lemma res_unwrap_or_get [simp]:
  "never_panics p \<Longrightarrow> res_unwrap_or d (get p om k) = Inr (case get p om k of Inr x \<Rightarrow> x | Inl _ \<Rightarrow> d)"
  by (simp add: get_not_panic)

lemma get_string:
  "get from_sudo_option_string om k = (case get_str om k of None \<Rightarrow> Inl (Missing_option k) | Some v \<Rightarrow> Inr v)"
  by (simp add: get_def from_sudo_option_string_def split: option.split)

lemma get_string_field: "(case get from_sudo_option_string om k of Inr x \<Rightarrow> Some x | Inl _ \<Rightarrow> None) = get_str om k"
  by (simp add: get_string split: option.split)

lemma get_bool_field:
  "(case get from_sudo_option_bool om k of Inr x \<Rightarrow> x | Inl _ \<Rightarrow> False) \<longleftrightarrow> get_str om k = Some ''true''"
  by (auto simp: get_def from_sudo_option_bool_def split: option.split)

lemma get_u64_field:
  "map_option unat (case get from_sudo_option_u64 om k of Inr x \<Rightarrow> Some x | Inl _ \<Rightarrow> None)
     = Option.bind (get_str om k) u64_numeral"
proof (cases "get_str om k")
  case (Some v)
  show ?thesis
  proof (cases "from_sudo_option_u64 v")
    case (Inl e)
    have "u64_numeral v = None"
    proof (rule ccontr)
      assume "u64_numeral v \<noteq> None"
      then obtain n where n: "u64_numeral v = Some n" by blast
      then have "n < 2 ^ 64" by (auto simp: u64_numeral_def Let_def split: if_splits)
      then have "u64_numeral v = Some (unat (of_nat n :: 64 word))" using n by (simp add: unat_of_nat)
      with Inl show False by (simp add: u64_from_str_numeral [symmetric])
    qed
    with Some Inl show ?thesis
      by (cases e) (auto simp: get_def never_panics_def split: option.split)
  next
    case (Inr w)
    then have "u64_numeral v = Some (unat w)" by (simp add: u64_from_str_numeral)
    with Some Inr show ?thesis by (simp add: get_def)
  qed
qed (simp add: get_def)

lemmas settings_field_simps = get_string_field get_bool_field never_panics_builtin



lemma settings_new_eq:
  "settings_new parse_addr om =
     bind_res (get from_sudo_option_string om ''plugin_dir'') (\<lambda>d.
     bind_res (get from_sudo_option_string om ''plugin_path'') (\<lambda>p.
     bind_res (get from_sudo_option_string om ''progname'') (\<lambda>n.
     bind_res (res_unwrap_or [] (get (net_addrs_from_sudo_option parse_addr) om ''network_addrs''))
       (\<lambda>na. Inr (settings_of om d p n na)))))"
  unfolding settings_new_def settings_of_def
  by (simp only: res_ok_get res_unwrap_or_get never_panics_builtin bind_res_Inr
      get_string_field get_bool_field)



lemma settings_new_Inr_iff:
  "settings_new parse_addr om = Inr s \<longleftrightarrow>
     (\<exists>d p n na. get_str om ''plugin_dir'' = Some d \<and> get_str om ''plugin_path'' = Some p
        \<and> get_str om ''progname'' = Some n
        \<and> res_unwrap_or [] (get (net_addrs_from_sudo_option parse_addr) om ''network_addrs'') = Inr na
        \<and> s = settings_of om d p n na)"
  by (auto simp: settings_new_eq bind_res_eq_Inr_iff get_string split: option.splits)

lemma settings_of_fields [simp]:
  "plugin_dir (settings_of om d p n na) = d" "plugin_path (settings_of om d p n na) = p"
  "progname (settings_of om d p n na) = n" "network_addrs (settings_of om d p n na) = na"
  "raw (settings_of om d p n na) = om"
  "login_shell (settings_of om d p n na) = (get_str om ''login_shell'' = Some ''true'')"
  "run_shell (settings_of om d p n na) = (get_str om ''run_shell'' = Some ''true'')"
  "runas_user (settings_of om d p n na) = get_str om ''runas_user''"
  "runas_group (settings_of om d p n na) = get_str om ''runas_group''"
  by (simp_all add: settings_of_def)

lemma net_addrs_unwrap:
  "res_unwrap_or [] (get (net_addrs_from_sudo_option parse_addr) om ''network_addrs'') = Inr na \<longleftrightarrow>
     \<not> is_panic (get (net_addrs_from_sudo_option parse_addr) om ''network_addrs'')
     \<and> na = (case get (net_addrs_from_sudo_option parse_addr) om ''network_addrs'' of
               Inr xs \<Rightarrow> xs | Inl _ \<Rightarrow> [])"
  by (rule res_unwrap_or_Inr_iff)

lemma settings_new_Inl_iff:
  "settings_new parse_addr om = Inl e \<longleftrightarrow>
     (get_str om ''plugin_dir'' = None \<and> e = Missing_option ''plugin_dir'')
   \<or> (get_str om ''plugin_dir'' \<noteq> None \<and> get_str om ''plugin_path'' = None \<and> e = Missing_option ''plugin_path'')
   \<or> (get_str om ''plugin_dir'' \<noteq> None \<and> get_str om ''plugin_path'' \<noteq> None \<and> get_str om ''progname'' = None
       \<and> e = Missing_option ''progname'')
   \<or> (get_str om ''plugin_dir'' \<noteq> None \<and> get_str om ''plugin_path'' \<noteq> None \<and> get_str om ''progname'' \<noteq> None
       \<and> (\<exists>m. e = Panic m \<and> get (net_addrs_from_sudo_option parse_addr) om ''network_addrs'' = Inl (Panic m)))"
proof -
  have unwrap: "res_unwrap_or [] r = Inl e \<longleftrightarrow> (\<exists>m. e = Panic m \<and> r = Inl (Panic m))"
    for r :: "'b list result"
  proof (cases r)
    case (Inl e')
    then show ?thesis by (cases e') auto
  qed simp
  show ?thesis
    by (auto simp: settings_new_eq bind_res_eq_Inl_iff get_string unwrap split: option.splits)
qed


lemma net_addrs_panic:
  assumes "split_on NET_ADDR_SEPARATOR v = pre @ tok # post"
    and "list_all (\<lambda>x. \<not> isl (net_addr_from_sudo_option parse_addr x)) pre"
    and "net_addr_from_sudo_option parse_addr tok = Inl (Panic m)"
  shows "net_addrs_from_sudo_option parse_addr v = Inl (Panic m)"
  using assms by (auto simp: net_addrs_from_sudo_option_def from_sudo_option_list_def parse_all_Inl_iff)

lemma flags_eq:
  "flags s = (case runas_user s of Some u \<Rightarrow> [''-u'', u] | None \<Rightarrow> [])
     @ (case runas_group s of Some g \<Rightarrow> [''-g'', g] | None \<Rightarrow> [])
     @ (if login_shell s then [''-i''] else []) @ (if run_shell s then [''-s''] else [])"
  by (simp add: flags_def split: option.split)

lemma split_three:
  "(\<exists>pre post. [a, b, c] = pre @ k # post \<and> list_all P pre \<and> Q k) \<longleftrightarrow>
     (k = a \<and> Q a) \<or> (k = b \<and> P a \<and> Q b) \<or> (k = c \<and> P a \<and> P b \<and> Q c)"
proof
  assume "\<exists>pre post. [a, b, c] = pre @ k # post \<and> list_all P pre \<and> Q k"
  then obtain pre post where eq: "[a, b, c] = pre @ k # post" and P: "list_all P pre" and Q: "Q k"
    by blast
  from eq have "pre = [] \<and> k = a \<or> pre = [a] \<and> k = b \<or> pre = [a, b] \<and> k = c"
    by (auto simp: Cons_eq_append_conv)
  with P Q show "(k = a \<and> Q a) \<or> (k = b \<and> P a \<and> Q b) \<or> (k = c \<and> P a \<and> P b \<and> Q c)"
    by auto
next
  assume "(k = a \<and> Q a) \<or> (k = b \<and> P a \<and> Q b) \<or> (k = c \<and> P a \<and> P b \<and> Q c)"
  then show "\<exists>pre post. [a, b, c] = pre @ k # post \<and> list_all P pre \<and> Q k"
  proof (elim disjE)
    assume "k = a \<and> Q a"
    then show ?thesis by (intro exI [of _ "[]"] exI [of _ "[b, c]"]) simp
  next
    assume "k = b \<and> P a \<and> Q b"
    then show ?thesis by (intro exI [of _ "[a]"] exI [of _ "[c]"]) simp
  next
    assume "k = c \<and> P a \<and> P b \<and> Q c"
    then show ?thesis by (intro exI [of _ "[a, b]"] exI [of _ "[]"]) simp
  qed
qed

lemmas settings_eval = settings_new_eq get_def get_str_def coercion_defs settings_of_def

subsection \<open>Properties\<close>


text \<open>
  C8 (bounds). A typed lookup of a \<open>u64\<close> succeeds exactly when the key holds
  a decimal numeral (optionally with \<open>+\<close>) below \<open>2^64\<close>, and returns a word
  whose value is that numeral's: no truncation, no wrap-around.
\<close>

theorem get_u64_iff:
  "get from_sudo_option_u64 om k = Inr w \<longleftrightarrow> Option.bind (get_str om k) u64_numeral = Some (unat w)"
  by (cases "get_str om k") (simp_all add: get_Inr_iff u64_from_str_numeral)

text \<open>
  C9 (functional). A typed lookup of a \<open>bool\<close> succeeds only on the canonical
  spellings: \<open>true\<close> gives true, \<open>false\<close> gives false.
\<close>

theorem get_bool_iff:
  "get from_sudo_option_bool om k = Inr b \<longleftrightarrow> get_str om k = Some (if b then ''true'' else ''false'')"
  by (simp add: get_Inr_iff from_sudo_option_bool_iff)

text \<open>
  C16 (functional). A constructed \<open>Settings\<close> holds the text values of the
  three required keys and keeps the option map it was built from.
\<close>

theorem settings_new_required:
  "settings_new parse_addr om = Inr s \<Longrightarrow>
     get_str om ''plugin_dir'' = Some (plugin_dir s) \<and> get_str om ''plugin_path'' = Some (plugin_path s)
     \<and> get_str om ''progname'' = Some (progname s) \<and> raw s = om"
  by (auto simp: settings_new_Inr_iff)

text \<open>
  C17 (error). Construction fails with \<open>Missing_option k\<close> exactly when
  \<open>k\<close> is the first required key, in the order \<open>plugin_dir\<close>,
  \<open>plugin_path\<close>, \<open>progname\<close>, whose value is absent or not text.
\<close>

theorem settings_new_missing_first:
  "settings_new parse_addr om = Inl (Missing_option k) \<longleftrightarrow>
     (\<exists>pre post. required_keys = pre @ k # post \<and> list_all (\<lambda>r. get_str om r \<noteq> None) pre
        \<and> get_str om k = None)"
proof -
  have s3: "(\<exists>pre post. required_keys = pre @ k # post \<and> list_all (\<lambda>r. get_str om r \<noteq> None) pre
              \<and> get_str om k = None) \<longleftrightarrow>
            (k = ''plugin_dir'' \<and> get_str om ''plugin_dir'' = None)
          \<or> (k = ''plugin_path'' \<and> get_str om ''plugin_dir'' \<noteq> None \<and> get_str om ''plugin_path'' = None)
          \<or> (k = ''progname'' \<and> get_str om ''plugin_dir'' \<noteq> None \<and> get_str om ''plugin_path'' \<noteq> None
              \<and> get_str om ''progname'' = None)"
    unfolding required_keys_def
    by (rule split_three [where P = "\<lambda>r. get_str om r \<noteq> None" and Q = "\<lambda>r. get_str om r = None"])
  show ?thesis unfolding s3 settings_new_Inl_iff error.inject error.distinct by blast
qed

text \<open>
  C18 (functional). Construction succeeds exactly when the three required keys
  hold text and the coercion of \<open>network_addrs\<close> does not panic: no optional
  field, however malformed, makes it fail.
\<close>

theorem settings_new_succeeds_iff:
  "(\<exists>s. settings_new parse_addr om = Inr s) \<longleftrightarrow>
     list_all (\<lambda>k. get_str om k \<noteq> None) required_keys
     \<and> \<not> is_panic (get (net_addrs_from_sudo_option parse_addr) om ''network_addrs'')"
  by (auto simp: settings_new_Inr_iff net_addrs_unwrap required_keys_def)

text \<open>
  C19 (functional). Every boolean field is true exactly when its key holds the
  text \<open>true\<close>; absence, undecodable bytes or any other value give false.
\<close>

theorem settings_new_bool_fields:
  "settings_new parse_addr om = Inr s \<Longrightarrow>
     (ignore_ticket s \<longleftrightarrow> get_str om ''ignore_ticket'' = Some ''true'')
   \<and> (implied_shell s \<longleftrightarrow> get_str om ''implied_shell'' = Some ''true'')
   \<and> (login_shell s \<longleftrightarrow> get_str om ''login_shell'' = Some ''true'')
   \<and> (noninteractive s \<longleftrightarrow> get_str om ''noninteractive'' = Some ''true'')
   \<and> (preserve_environment s \<longleftrightarrow> get_str om ''preserve_environment'' = Some ''true'')
   \<and> (preserve_groups s \<longleftrightarrow> get_str om ''preserve_groups'' = Some ''true'')
   \<and> (run_shell s \<longleftrightarrow> get_str om ''run_shell'' = Some ''true'')
   \<and> (set_home s \<longleftrightarrow> get_str om ''set_home'' = Some ''true'')
   \<and> (sudoedit s \<longleftrightarrow> get_str om ''sudoedit'' = Some ''true'')"
  by (auto simp: settings_new_Inr_iff settings_of_def)

text \<open>
  C20 (functional). Every optional text field is the text value of its key, and
  unset when the key is absent or its bytes are not UTF-8.
\<close>

theorem settings_new_text_fields:
  "settings_new parse_addr om = Inr s \<Longrightarrow>
     bsd_auth_type s = get_str om ''bsd_auth_type'' \<and> debug_flags s = get_str om ''debug_flags''
   \<and> login_class s = get_str om ''login_class'' \<and> prompt s = get_str om ''prompt''
   \<and> remote_host s = get_str om ''remote_host'' \<and> runas_group s = get_str om ''runas_group''
   \<and> runas_user s = get_str om ''runas_user'' \<and> selinux_role s = get_str om ''selinux_role''
   \<and> selinux_type s = get_str om ''selinux_type''"
  by (auto simp: settings_new_Inr_iff settings_of_def)

text \<open>
  C21 (bounds). The \<open>u64\<close> fields (\<open>close_from\<close> from the key
  \<open>closefrom\<close>, \<open>debug_level\<close>, \<open>max_groups\<close>) are set exactly when the
  key holds a decimal numeral below \<open>2^64\<close>, and then hold its value.
\<close>

theorem settings_new_u64_fields:
  "settings_new parse_addr om = Inr s \<Longrightarrow>
     map_option unat (close_from s) = Option.bind (get_str om ''closefrom'') u64_numeral
   \<and> map_option unat (debug_level s) = Option.bind (get_str om ''debug_level'') u64_numeral
   \<and> map_option unat (max_groups s) = Option.bind (get_str om ''max_groups'') u64_numeral"
  by (auto simp: settings_new_Inr_iff settings_of_def get_u64_field)

text \<open>
  C22 (functional). The address list is the coerced value of
  \<open>network_addrs\<close>, and empty when the key is absent or a segment fails.
\<close>

theorem settings_new_network_addrs:
  "settings_new parse_addr om = Inr s \<Longrightarrow>
     network_addrs s = (case get (net_addrs_from_sudo_option parse_addr) om ''network_addrs'' of
                          Inr xs \<Rightarrow> xs | Inl _ \<Rightarrow> [])"
  by (auto simp: settings_new_Inr_iff net_addrs_unwrap)

text \<open>
  C23 (safety). Construction panics, although every required key is present,
  when \<open>network_addrs\<close> holds a token without \<open>/\<close> that is a valid address
  and every token before it parses: the panic of the \<open>NetAddr\<close> coercion is
  not caught by \<open>unwrap_or_else\<close>.
\<close>

theorem settings_new_network_addrs_panic:
  assumes "list_all (\<lambda>k. get_str om k \<noteq> None) required_keys"
    and "get_str om ''network_addrs'' = Some v"
    and "split_on NET_ADDR_SEPARATOR v = pre @ tok # post"
    and "list_all (\<lambda>x. \<not> isl (net_addr_from_sudo_option parse_addr x)) pre"
    and "CHR ''/'' \<notin> set tok" and "parse_addr tok = Inr a"
  shows "settings_new parse_addr om = Inl (Panic ''byte index out of bounds'')"
proof -
  have "net_addr_from_sudo_option parse_addr tok = Inl (Panic ''byte index out of bounds'')"
    using assms(5,6) by (simp add: net_addr_parse_no_slash)
  with assms(3,4) have "net_addrs_from_sudo_option parse_addr v = Inl (Panic ''byte index out of bounds'')"
    by (rule net_addrs_panic)
  with assms(2) have "get (net_addrs_from_sudo_option parse_addr) om ''network_addrs''
                        = Inl (Panic ''byte index out of bounds'')"
    by (simp add: get_def)
  with assms(1) show ?thesis
    by (auto simp: settings_new_Inl_iff required_keys_def)
qed

text \<open>
  C24 (roundtrip). The flag list is read back positionally into exactly the
  four fields it encodes: \<open>-u user\<close>, then \<open>-g group\<close>, then \<open>-i\<close>, then
  \<open>-s\<close>, each present only when its field is set.
\<close>

theorem flags_roundtrip:
  "parse_flags (flags s) = Some (runas_user s, runas_group s, login_shell s, run_shell s)"
  by (cases "runas_user s"; cases "runas_group s"; cases "login_shell s"; cases "run_shell s")
    (simp_all add: flags_eq parse_flags_def take_arg_flag_def take_switch_def)


subsection \<open>Witnesses\<close>

abbreviation example_map :: option_map where
  "example_map \<equiv> OptionMap [''plugin_dir'' \<mapsto> ''/x'', ''plugin_path'' \<mapsto> ''/x/p'', ''progname'' \<mapsto> ''sudo'',
     ''login_shell'' \<mapsto> ''true'', ''set_home'' \<mapsto> ''yes'', ''closefrom'' \<mapsto> ''5'',
     ''max_groups'' \<mapsto> ''-1'', ''runas_user'' \<mapsto> ''alice'', ''runas_group'' \<mapsto> ''wheel'',
     ''network_addrs'' \<mapsto> ''10.0.0.0/255.0.0.0'']"

abbreviation example_settings :: "ip_addr settings" where
  "example_settings \<equiv> settings_of example_map ''/x'' ''/x/p'' ''sudo''
     [\<lparr>addr = V4 (Ipv4Addr 10 0 0 0), mask' = V4 (Ipv4Addr 255 0 0 0)\<rparr>]"

lemma settings_example: "settings_new ip_addr_from_str example_map = Inr example_settings"
  by (simp add: settings_new_eq get_def get_str_def coercion_defs net_addrs_from_sudo_option_def
      net_addr_from_sudo_option_def ip_parser_defs NET_ADDR_SEPARATOR_def)

lemma settings_new_required_witness:
  "get_str example_map ''plugin_dir'' = Some ''/x'' \<and> get_str example_map ''plugin_path'' = Some ''/x/p''
   \<and> get_str example_map ''progname'' = Some ''sudo'' \<and> raw example_settings = example_map"
  using settings_new_required [OF settings_example] by simp

lemma settings_new_missing_first_witness:
  "settings_new ip_addr_from_str (OptionMap [''plugin_dir'' \<mapsto> ''/x'', ''progname'' \<mapsto> ''sudo''])
     = Inl (Missing_option ''plugin_path'')"
proof -
  have "\<exists>pre post. required_keys = pre @ ''plugin_path'' # post
          \<and> list_all (\<lambda>r. get_str (OptionMap [''plugin_dir'' \<mapsto> ''/x'', ''progname'' \<mapsto> ''sudo'']) r \<noteq> None) pre
          \<and> get_str (OptionMap [''plugin_dir'' \<mapsto> ''/x'', ''progname'' \<mapsto> ''sudo'']) ''plugin_path'' = None"
    by (rule exI [of _ "[''plugin_dir'']"], rule exI [of _ "[''progname'']"])
      (simp add: required_keys_def get_str_def)
  then show ?thesis by (simp only: settings_new_missing_first)
qed

lemma settings_new_succeeds_iff_witness:
  "\<exists>s. settings_new ip_addr_from_str example_map = Inr s"
proof -
  have "list_all (\<lambda>k. get_str example_map k \<noteq> None) required_keys"
    by (simp add: required_keys_def get_str_def)
  moreover have "\<not> is_panic (get (net_addrs_from_sudo_option ip_addr_from_str) example_map ''network_addrs'')"
    by (simp add: get_def get_str_def coercion_defs net_addrs_from_sudo_option_def
        net_addr_from_sudo_option_def ip_parser_defs NET_ADDR_SEPARATOR_def)
  ultimately show ?thesis by (simp only: settings_new_succeeds_iff simp_thms)
qed

lemma settings_new_bool_fields_witness:
  "login_shell example_settings \<and> \<not> set_home example_settings \<and> \<not> sudoedit example_settings"
  using settings_new_bool_fields [OF settings_example] by (simp add: get_str_def)

lemma settings_new_text_fields_witness:
  "runas_user example_settings = Some ''alice'' \<and> prompt example_settings = None"
  using settings_new_text_fields [OF settings_example] by (simp add: get_str_def)

lemma settings_new_u64_fields_witness:
  "map_option unat (close_from example_settings) = Some 5 \<and> max_groups example_settings = None"
proof -
  have "u64_numeral ''5'' = Some 5" "u64_numeral ''-1'' = None"
    by (simp_all add: u64_numeral_def all_digits_def digit_value_def decimal_value_def)
  then show ?thesis
    using settings_new_u64_fields [OF settings_example] by (simp add: get_str_def)
qed

lemma settings_new_network_addrs_witness:
  "network_addrs example_settings = [\<lparr>addr = V4 (Ipv4Addr 10 0 0 0), mask' = V4 (Ipv4Addr 255 0 0 0)\<rparr>]"
  using settings_new_network_addrs [OF settings_example]
  by (simp add: get_def get_str_def coercion_defs net_addrs_from_sudo_option_def
      net_addr_from_sudo_option_def ip_parser_defs NET_ADDR_SEPARATOR_def)

lemma settings_new_network_addrs_panic_witness:
  "settings_new ip_addr_from_str (OptionMap [''plugin_dir'' \<mapsto> ''/x'', ''plugin_path'' \<mapsto> ''/x/p'',
      ''progname'' \<mapsto> ''sudo'', ''network_addrs'' \<mapsto> ''10.0.0.1''])
   = Inl (Panic ''byte index out of bounds'')"
proof (rule settings_new_network_addrs_panic [where v = "''10.0.0.1''" and pre = "[]"
      and tok = "''10.0.0.1''" and post = "[]" and a = "V4 (Ipv4Addr 10 0 0 1)"])
  show "list_all (\<lambda>k. get_str (OptionMap [''plugin_dir'' \<mapsto> ''/x'', ''plugin_path'' \<mapsto> ''/x/p'',
      ''progname'' \<mapsto> ''sudo'', ''network_addrs'' \<mapsto> ''10.0.0.1'']) k \<noteq> None) required_keys"
    by (simp add: required_keys_def get_str_def)
  show "get_str (OptionMap [''plugin_dir'' \<mapsto> ''/x'', ''plugin_path'' \<mapsto> ''/x/p'',
      ''progname'' \<mapsto> ''sudo'', ''network_addrs'' \<mapsto> ''10.0.0.1'']) ''network_addrs'' = Some ''10.0.0.1''"
    by (simp add: get_str_def)
  show "split_on NET_ADDR_SEPARATOR ''10.0.0.1'' = [] @ ''10.0.0.1'' # []"
    by (simp add: NET_ADDR_SEPARATOR_def)
  show "list_all (\<lambda>x. \<not> isl (net_addr_from_sudo_option ip_addr_from_str x)) []" by simp
  show "CHR ''/'' \<notin> set ''10.0.0.1''" by simp
  show "ip_addr_from_str ''10.0.0.1'' = Inr (V4 (Ipv4Addr 10 0 0 1))"
    by (simp add: ip_parser_defs)
qed


end
