(* ===== verification/Error_Messages.thy ===== *)
theory Error_Messages
  imports Settings
begin

text \<open>
  The messages of the crate's errors. \<open>OptionMap::get\<close> builds its two
  errors with \<open>chain_err\<close> from a \<open>format!\<close> string naming the key, and the
  \<open>Display\<close> of an \<open>error_chain\<close> error of kind \<open>Msg\<close> is that string;
  the parse errors of the standard library have fixed descriptions.
  \<^term>\<open>message_reason\<close> reads a message back into the reason and the key.
\<close>

subsection \<open>Messages\<close>

definition MSG_OPTION :: string where
  "MSG_OPTION = ''option ''"

definition MSG_NOT_PROVIDED :: string where
  "MSG_NOT_PROVIDED = '' wasn't provided to the plugin''"

definition MSG_NOT_PARSED :: string where
  "MSG_NOT_PARSED = '' couldn't be parsed''"

fun parse_error_display :: "parse_error \<Rightarrow> string" where
  "parse_error_display Int_empty = ''cannot parse integer from empty string''"
| "parse_error_display Int_invalid_digit = ''invalid digit found in string''"
| "parse_error_display Int_pos_overflow = ''number too large to fit in target type''"
| "parse_error_display Bool_invalid = ''provided string was not `true` or `false`''"
| "parse_error_display Addr_invalid = ''invalid IP address syntax''"

fun error_display :: "error \<Rightarrow> string" where
  "error_display (Missing_option k) = MSG_OPTION @ k @ MSG_NOT_PROVIDED"
| "error_display (Unparsable_option k) = MSG_OPTION @ k @ MSG_NOT_PARSED"
| "error_display (Parse_failed e) = parse_error_display e"
| "error_display (Panic m) = m"

subsection \<open>Reading a message back\<close>

definition strip_prefix :: "'a list \<Rightarrow> 'a list \<Rightarrow> 'a list option" where
  "strip_prefix p s = (if take (length p) s = p then Some (drop (length p) s) else None)"

definition strip_suffix :: "'a list \<Rightarrow> 'a list \<Rightarrow> 'a list option" where
  "strip_suffix x s = map_option rev (strip_prefix (rev x) (rev s))"

datatype get_failure = Not_provided | Not_parsed

definition message_reason :: "string \<Rightarrow> (get_failure \<times> string) option" where
  "message_reason m = Option.bind (strip_prefix MSG_OPTION m) (\<lambda>r.
     case strip_suffix MSG_NOT_PROVIDED r of
       Some k \<Rightarrow> Some (Not_provided, k)
     | None \<Rightarrow> map_option (\<lambda>k. (Not_parsed, k)) (strip_suffix MSG_NOT_PARSED r))"

subsection \<open>Lemmas\<close>

lemma strip_prefix_append [simp]: "strip_prefix p (p @ s) = Some s"
  by (simp add: strip_prefix_def)

lemma strip_suffix_append [simp]: "strip_suffix x (s @ x) = Some s"
  by (simp add: strip_suffix_def)

lemma strip_prefix_Cons_mismatch: "a \<noteq> b \<Longrightarrow> strip_prefix (a # p) (b # s) = None"
  by (simp add: strip_prefix_def)

lemma not_provided_not_parsed: "strip_suffix MSG_NOT_PROVIDED (k @ MSG_NOT_PARSED) = None"
  by (simp add: strip_suffix_def MSG_NOT_PROVIDED_def MSG_NOT_PARSED_def strip_prefix_Cons_mismatch)

lemma message_reason_display:
  "message_reason (error_display (Missing_option k)) = Some (Not_provided, k)"
  "message_reason (error_display (Unparsable_option k)) = Some (Not_parsed, k)"
  by (simp_all add: message_reason_def not_provided_not_parsed)

lemma error_display_inj:
  "error_display (Missing_option k) \<noteq> error_display (Unparsable_option k')"
  using message_reason_display [of k] message_reason_display(2) [of k'] by (metis get_failure.distinct(1) prod.inject option.inject)

lemma first_missing_message:
  assumes "e = Missing_option k" and "required_keys = pre @ k # post"
    and "list_all (\<lambda>r. get_str om r \<noteq> None) pre" and "get_str om k = None"
  shows "\<exists>k. message_reason (error_display e) = Some (Not_provided, k)
           \<and> (\<exists>pre post. required_keys = pre @ k # post \<and> list_all (\<lambda>r. get_str om r \<noteq> None) pre
                \<and> get_str om k = None)"
  using assms message_reason_display(1) [of k] by blast

subsection \<open>Properties\<close>

text \<open>
  C6 (error). When \<open>Settings::new\<close> fails other than by a panic, its error
  message is \<open>option k wasn't provided to the plugin\<close> for the first required
  key \<open>k\<close>, in the order \<open>plugin_dir\<close>, \<open>plugin_path\<close>, \<open>progname\<close>, that
  is absent or not text: the message can be read back into that reason and that
  key, as the user-visible failure of construction must name the key.
\<close>

theorem settings_new_error_message:
  assumes "settings_new parse_addr om = Inl e" and "\<forall>m. e \<noteq> Panic m"
  shows "\<exists>k. message_reason (error_display e) = Some (Not_provided, k)
           \<and> (\<exists>pre post. required_keys = pre @ k # post \<and> list_all (\<lambda>r. get_str om r \<noteq> None) pre
                \<and> get_str om k = None)"
proof -
  from assms consider
      (dir) "get_str om ''plugin_dir'' = None" "e = Missing_option ''plugin_dir''"
    | (path) "get_str om ''plugin_dir'' \<noteq> None" "get_str om ''plugin_path'' = None"
        "e = Missing_option ''plugin_path''"
    | (prog) "get_str om ''plugin_dir'' \<noteq> None" "get_str om ''plugin_path'' \<noteq> None"
        "get_str om ''progname'' = None" "e = Missing_option ''progname''"
    unfolding settings_new_Inl_iff by auto
  then show ?thesis
  proof cases
    case dir
    then show ?thesis
      by (intro first_missing_message [of e _ "[]" "[''plugin_path'', ''progname'']"])
        (simp_all add: required_keys_def)
  next
    case path
    then show ?thesis
      by (intro first_missing_message [of e _ "[''plugin_dir'']" "[''progname'']"])
        (simp_all add: required_keys_def)
  next
    case prog
    then show ?thesis
      by (intro first_missing_message [of e _ "[''plugin_dir'', ''plugin_path'']" "[]"])
        (simp_all add: required_keys_def)
  qed
qed

subsection \<open>Witnesses\<close>

lemma settings_new_error_message_witness:
  "\<exists>k. message_reason (error_display (Missing_option ''plugin_path'')) = Some (Not_provided, k)
     \<and> (\<exists>pre post. required_keys = pre @ k # post
          \<and> list_all (\<lambda>r. get_str (OptionMap [''plugin_dir'' \<mapsto> ''/x'', ''progname'' \<mapsto> ''sudo'']) r \<noteq> None) pre
          \<and> get_str (OptionMap [''plugin_dir'' \<mapsto> ''/x'', ''progname'' \<mapsto> ''sudo'']) k = None)"
proof (rule settings_new_error_message [of ip_addr_from_str])
  show "settings_new ip_addr_from_str (OptionMap [''plugin_dir'' \<mapsto> ''/x'', ''progname'' \<mapsto> ''sudo''])
      = Inl (Missing_option ''plugin_path'')"
    by (simp add: settings_new_Inl_iff get_str_def)
  show "\<forall>m. Missing_option ''plugin_path'' \<noteq> Panic m" by simp
qed

lemma settings_new_error_message_example:
  "error_display (Missing_option ''plugin_path'') = ''option plugin_path wasn't provided to the plugin''"
  by (simp add: MSG_OPTION_def MSG_NOT_PROVIDED_def)

end
