(* ===== verification/Option_Map_Loop.thy ===== *)
theory Option_Map_Loop
  imports Option_Map
begin

text \<open>
  The \<open>while !(*ptr).is_null()\<close> loop of \<open>OptionMap::new\<close> at the level of
  pointers. Here the array is what can be read at \<open>ptr\<close>,
  \<open>ptr.offset(1)\<close>, \<dots>: a function from offsets to pointer cells, with no end
  of its own, so nothing but a null cell stops the walk. \<^term>\<open>new_walk\<close> is
  a \<^theory_text>\<open>partial_function (option)\<close>: \<^term>\<open>None\<close> is the walk that never
  returns (no sentinel) or reads a string without a NUL (undefined behaviour).
  The lemmas show that the walk computes \<^term>\<open>new_loop\<close> on the cells up to any
  null one, that it returns when the contract holds and never returns when there
  is no null cell, and that every map it builds satisfies the entry invariant
  \<^term>\<open>option_map_wf\<close>: no key holds \<open>=\<close> or NUL, no value holds NUL.
\<close>

type_synonym cstr_array = "nat \<Rightarrow> cstr_ptr"

partial_function (option) new_walk ::
    "cstr_array \<Rightarrow> nat \<Rightarrow> (bytes \<rightharpoonup> bytes) \<Rightarrow> (bytes \<rightharpoonup> bytes) option" where
  "new_walk cells i m =
     (case cells i of
        Null_ptr \<Rightarrow> Some m
      | Cstr_ptr buf \<Rightarrow>
          (case cstr_to_bytes buf of
             None \<Rightarrow> None
           | Some bytes \<Rightarrow> (let (k, v) = parse_option bytes in new_walk cells (Suc i) (m(k \<mapsto> v)))))"

text \<open>\<open>OptionMap::new(ptr)\<close>: a null \<open>ptr\<close> (\<^term>\<open>None\<close>) gives the default map.\<close>

definition option_map_new_ptr :: "cstr_array option \<Rightarrow> option_map option" where
  "option_map_new_ptr ptr =
     (case ptr of
        None \<Rightarrow> Some option_map_default
      | Some cells \<Rightarrow> map_option OptionMap (new_walk cells 0 Map.empty))"

text \<open>
  The array of the unit test \<open>new_parses_simple_keys\<close>: two entries and the
  null sentinel (cells past the sentinel are never read).
\<close>

definition simple_keys_array :: cstr_array where
  "simple_keys_array j =
     (if j = 0 then Cstr_ptr (''key1=value1'' @ [NUL])
      else if j = 1 then Cstr_ptr (''key2=value2'' @ [NUL])
      else Null_ptr)"

text \<open>The invariant of every entry of a constructed map.\<close>

definition option_entry_wf :: "bytes \<Rightarrow> bytes \<Rightarrow> bool" where
  "option_entry_wf k v \<longleftrightarrow> NUL \<notin> set k \<and> OPTIONS_SEPARATOR \<notin> set k \<and> NUL \<notin> set v"

definition option_map_wf :: "(bytes \<rightharpoonup> bytes) \<Rightarrow> bool" where
  "option_map_wf m \<longleftrightarrow> (\<forall>k v. m k = Some v \<longrightarrow> option_entry_wf k v)"

text \<open>
  Two cells that \<open>CStr::from_ptr(..).to_bytes()\<close> cannot tell apart: both null,
  or two strings with the same bytes before their first NUL.
\<close>

definition same_cstr :: "cstr_ptr \<Rightarrow> cstr_ptr \<Rightarrow> bool" where
  "same_cstr p q =
     (case (p, q) of
        (Null_ptr, Null_ptr) \<Rightarrow> True
      | (Cstr_ptr a, Cstr_ptr b) \<Rightarrow> cstr_to_bytes a = cstr_to_bytes b
      | _ \<Rightarrow> False)"

subsection \<open>Lemmas\<close>

lemma new_loop_same_cstr:
  "list_all2 same_cstr ps qs \<Longrightarrow> new_loop m ps = new_loop m qs"
proof (induction ps qs arbitrary: m rule: list_all2_induct)
  case (Cons p ps q qs)
  then show ?case
    by (cases p; cases q) (simp_all add: same_cstr_def split: option.split prod.split)
qed simp

lemma new_walk_new_loop_gen:
  "cells (i + d) = Null_ptr \<Longrightarrow> new_walk cells i m = new_loop m (map cells [i..<Suc (i + d)])"
proof (induction d arbitrary: i m)
  case 0
  then show ?case by (simp add: new_walk.simps)
next
  case (Suc d)
  have IH: "new_walk cells (Suc i) m' = new_loop m' (map cells [Suc i..<Suc (Suc i + d)])" for m'
    using Suc.IH [of "Suc i" m'] Suc.prems by simp
  have split: "map cells [i..<Suc (i + Suc d)] = cells i # map cells [Suc i..<Suc (Suc i + d)]"
    by (simp add: upt_rec)
  show ?case
    unfolding split
    by (cases "cells i") (auto simp: new_walk.simps [of cells i] IH simp del: upt_Suc
        split: option.split prod.split)
qed

lemma new_walk_eq_new_loop:
  "cells n = Null_ptr \<Longrightarrow> new_walk cells 0 m = new_loop m (map cells [0..<Suc n])"
  using new_walk_new_loop_gen [of cells 0 n m] by simp

lemma new_walk_reaches_null:
  assumes ret: "new_walk cells i m = Some m'"
  shows "\<exists>j \<ge> i. cells j = Null_ptr"
proof (rule new_walk.raw_induct [where P = "\<lambda>cells i m m'. \<exists>j \<ge> i. cells j = Null_ptr", OF _ ret])
  fix f cells i m m'
  assume IH: "\<And>cells i m m'. f cells i m = Some m' \<Longrightarrow> \<exists>j \<ge> i. cells j = Null_ptr"
    and eq: "(case cells i of
        Null_ptr \<Rightarrow> Some m
      | Cstr_ptr buf \<Rightarrow>
          (case cstr_to_bytes buf of
             None \<Rightarrow> None
           | Some bytes \<Rightarrow> (let (k, v) = parse_option bytes in f cells (Suc i) (m(k \<mapsto> v))))) = Some m'"
  show "\<exists>j \<ge> i. cells j = Null_ptr"
  proof (cases "cells i")
    case Null_ptr
    then show ?thesis by blast
  next
    case (Cstr_ptr buf)
    with eq obtain k v where "f cells (Suc i) (m(k \<mapsto> v)) = Some m'"
      by (auto split: option.splits prod.splits)
    then obtain j where "j \<ge> Suc i" "cells j = Null_ptr" using IH by blast
    then show ?thesis by (intro exI [of _ j]) simp
  qed
qed

lemma new_walk_None:
  "\<forall>j \<ge> i. cells j \<noteq> Null_ptr \<Longrightarrow> new_walk cells i m = None"
  using new_walk_reaches_null [of cells i m] by fastforce

lemma cstr_to_bytes_SomeD: "cstr_to_bytes buf = Some bytes \<Longrightarrow> NUL \<notin> set bytes"
  by (auto simp: cstr_to_bytes_def split: if_splits dest: set_takeWhileD)

lemma cstr_to_bytes_NUL: "NUL \<in> set buf \<Longrightarrow> \<exists>bytes. cstr_to_bytes buf = Some bytes"
  by (simp add: cstr_to_bytes_def)

lemma parse_option_wf:
  "NUL \<notin> set bytes \<Longrightarrow> option_entry_wf (fst (parse_option bytes)) (snd (parse_option bytes))"
proof (cases "position (\<lambda>b. b = OPTIONS_SEPARATOR) bytes")
  case None
  then have "OPTIONS_SEPARATOR \<notin> set bytes" by auto
  then show "NUL \<notin> set bytes \<Longrightarrow> ?thesis"
    unfolding parse_option_def None option_entry_wf_def by simp
next
  case (Some s)
  assume nul: "NUL \<notin> set bytes"
  have "OPTIONS_SEPARATOR \<notin> set (take s bytes)"
    using position_SomeD [OF Some] by (auto simp: in_set_conv_nth)
  with nul show ?thesis
    unfolding parse_option_def Some option_entry_wf_def
    by (auto dest: in_set_takeD in_set_dropD)
qed

lemma option_map_wf_upd:
  "option_map_wf m \<Longrightarrow> option_entry_wf k v \<Longrightarrow> option_map_wf (m(k \<mapsto> v))"
  by (simp add: option_map_wf_def)

lemma option_map_wf_empty [simp]: "option_map_wf Map.empty"
  by (simp add: option_map_wf_def)

lemma new_loop_wf:
  "option_map_wf m \<Longrightarrow> new_loop m ptrs = Some m' \<Longrightarrow> option_map_wf m'"
proof (induction m ptrs rule: new_loop.induct)
  case (3 m buf ptrs)
  then obtain bytes where b: "cstr_to_bytes buf = Some bytes"
    by (auto split: option.splits)
  obtain k v where kv: "parse_option bytes = (k, v)" by fastforce
  have "option_entry_wf k v"
    using parse_option_wf [OF cstr_to_bytes_SomeD [OF b]] kv by simp
  with "3.prems"(1) have "option_map_wf (m(k \<mapsto> v))" by (rule option_map_wf_upd)
  moreover have "new_loop (m(k \<mapsto> v)) ptrs = Some m'" using "3.prems"(2) b kv by simp
  ultimately show ?case using "3.IH" [OF b refl kv [symmetric]] by (simp add: fun_upd_def)
qed auto

lemma option_map_new_wf:
  "option_map_new p = Some om \<Longrightarrow> option_map_wf (option_map_entries om)"
  by (auto simp: option_map_new_def option_map_default_def split: cstr_array_ptr.splits
      intro: new_loop_wf [OF option_map_wf_empty])

lemma sentinel_prefix_Some:
  "Null_ptr \<in> set ptrs \<Longrightarrow> \<forall>p \<in> set ptrs. \<forall>buf. p = Cstr_ptr buf \<longrightarrow> NUL \<in> set buf \<Longrightarrow>
     \<exists>opts. sentinel_prefix ptrs = Some opts"
  by (induction ptrs rule: sentinel_prefix.induct) (auto dest!: cstr_to_bytes_NUL)

lemma new_walk_returns:
  assumes "cells n = Null_ptr" and "\<forall>j < n. \<forall>buf. cells j = Cstr_ptr buf \<longrightarrow> NUL \<in> set buf"
  shows "\<exists>m'. new_walk cells 0 m = Some m'"
proof -
  have "Null_ptr \<in> set (map cells [0..<Suc n])" using assms(1) by force
  moreover have "\<forall>p \<in> set (map cells [0..<Suc n]). \<forall>buf. p = Cstr_ptr buf \<longrightarrow> NUL \<in> set buf"
    using assms by (auto simp: less_Suc_eq)
  ultimately obtain opts where "sentinel_prefix (map cells [0..<Suc n]) = Some opts"
    using sentinel_prefix_Some by blast
  then show ?thesis
    using new_walk_new_loop_gen [of cells 0 n m] assms(1) by (simp add: new_loop_abs)
qed

subsection \<open>Properties\<close>

text \<open>
  C28 (safety). The walk reads nothing past the sentinel and no byte past a
  string's terminator: two arrays whose cells up to the first null one hold the
  same C strings give the same map, whatever memory follows the null cell and
  whatever follows each NUL. Only the strings before the sentinel are copied
  into the map.
\<close>

theorem option_map_new_ptr_frame:
  assumes "cells n = Null_ptr" and "\<forall>j \<le> n. same_cstr (cells j) (cells' j)"
  shows "option_map_new_ptr (Some cells') = option_map_new_ptr (Some cells)"
proof -
  have "cells' n = Null_ptr"
    using assms by (cases "cells' n") (auto simp: same_cstr_def)
  moreover have "list_all2 same_cstr (map cells [0..<Suc n]) (map cells' [0..<Suc n])"
    using assms(2) by (auto simp: list_all2_conv_all_nth less_Suc_eq_le simp del: upt_Suc)
  ultimately show ?thesis
    using assms(1) by (simp add: option_map_new_ptr_def new_walk_eq_new_loop new_loop_same_cstr)
qed

text \<open>
  C29 (termination). When the host keeps the contract, a null cell at some offset
  and a NUL in every string before it, \<open>OptionMap::new\<close> returns.
\<close>

theorem option_map_new_ptr_terminates:
  assumes "cells n = Null_ptr" and "\<forall>j < n. \<forall>buf. cells j = Cstr_ptr buf \<longrightarrow> NUL \<in> set buf"
  shows "\<exists>om. option_map_new_ptr (Some cells) = Some om"
  using new_walk_returns [OF assms, of Map.empty] by (auto simp: option_map_new_ptr_def)

text \<open>
  C30 (termination). Without a null cell the loop has no other way to stop:
  \<open>OptionMap::new\<close> never returns a map, whatever the strings hold.
\<close>

theorem option_map_new_ptr_diverges:
  "\<forall>j. cells j \<noteq> Null_ptr \<Longrightarrow> option_map_new_ptr (Some cells) = None"
  by (simp add: option_map_new_ptr_def new_walk_None)

text \<open>
  C31 (invariant). Each iteration of the loop keeps the entry invariant: a walk
  started on a well-formed map returns only well-formed maps.
\<close>

theorem new_walk_preserves_wf:
  assumes ret: "new_walk cells i m = Some m'" and wf: "option_map_wf m"
  shows "option_map_wf m'"
proof -
  have "option_map_wf m \<longrightarrow> option_map_wf m'"
  proof (rule new_walk.raw_induct [where P = "\<lambda>cells i m m'. option_map_wf m \<longrightarrow> option_map_wf m'",
      OF _ ret])
    fix f cells i m m'
    assume IH: "\<And>cells i m m'. f cells i m = Some m' \<Longrightarrow> option_map_wf m \<longrightarrow> option_map_wf m'"
      and eq: "(case cells i of
        Null_ptr \<Rightarrow> Some m
      | Cstr_ptr buf \<Rightarrow>
          (case cstr_to_bytes buf of
             None \<Rightarrow> None
           | Some bytes \<Rightarrow> (let (k, v) = parse_option bytes in f cells (Suc i) (m(k \<mapsto> v))))) = Some m'"
    show "option_map_wf m \<longrightarrow> option_map_wf m'"
    proof (cases "cells i")
      case Null_ptr
      with eq show ?thesis by simp
    next
      case (Cstr_ptr buf)
      with eq obtain bytes k v where b: "cstr_to_bytes buf = Some bytes"
        and kv: "parse_option bytes = (k, v)" and rec: "f cells (Suc i) (m(k \<mapsto> v)) = Some m'"
        by (auto split: option.splits prod.splits)
      have "option_entry_wf k v"
        using parse_option_wf [OF cstr_to_bytes_SomeD [OF b]] kv by simp
      then show ?thesis
        using IH [OF rec] option_map_wf_upd [of m k v] by blast
    qed
  qed
  with wf show ?thesis by blast
qed

text \<open>
  C32 (safety). A key containing \<open>=\<close> or NUL is never found in a constructed
  map: an entry \<open>a=b=c\<close> is stored under \<open>a\<close>, never under \<open>a=b\<close>.
\<close>

theorem option_map_new_no_sep_key:
  "option_map_new p = Some om \<Longrightarrow> OPTIONS_SEPARATOR \<in> set k \<or> NUL \<in> set k \<Longrightarrow> get_bytes om k = None"
  using option_map_new_wf [of p om]
  by (cases "get_bytes om k") (auto simp: option_map_wf_def option_entry_wf_def get_bytes_def)

subsection \<open>Witnesses\<close>

lemma simple_keys_array_new:
  "new_walk simple_keys_array 0 Map.empty = Some [''key1'' \<mapsto> ''value1'', ''key2'' \<mapsto> ''value2'']"
proof -
  have null: "simple_keys_array 2 = Null_ptr" by (simp add: simple_keys_array_def)
  show ?thesis
    by (simp add: new_walk_eq_new_loop [of simple_keys_array 2, OF null] simple_keys_array_def upt_rec NUL_def cstr_to_bytes_def
        parse_option_def OPTIONS_SEPARATOR_def)
qed

text \<open>The assertions of the unit test \<open>new_parses_simple_keys\<close>, on the pointer model.\<close>

lemma new_parses_simple_keys_ptr:
  "Option.bind (option_map_new_ptr (Some simple_keys_array)) (\<lambda>om. get_str om ''key1'') = Some ''value1''
   \<and> Option.bind (option_map_new_ptr (Some simple_keys_array)) (\<lambda>om. get_str om ''key2'') = Some ''value2''
   \<and> Option.bind (option_map_new_ptr (Some simple_keys_array)) (\<lambda>om. get_str om ''key3'') = None"
  by (simp add: option_map_new_ptr_def simple_keys_array_new get_str_def get_bytes_def)

lemma option_map_new_ptr_frame_witness:
  "option_map_new_ptr (Some (\<lambda>j. if j = 0 then Cstr_ptr (''key1=value1'' @ NUL # ''stale'')
                                  else if j = 1 then Cstr_ptr (''key2=value2'' @ [NUL])
                                  else if j = 2 then Null_ptr else Cstr_ptr ''unterminated''))
   = option_map_new_ptr (Some simple_keys_array)"
  by (rule option_map_new_ptr_frame [of simple_keys_array 2])
    (auto simp: simple_keys_array_def same_cstr_def cstr_to_bytes_def NUL_def le_Suc_eq)

lemma option_map_new_ptr_terminates_witness:
  "\<exists>om. option_map_new_ptr (Some simple_keys_array) = Some om"
  by (rule option_map_new_ptr_terminates [of simple_keys_array 2])
    (auto simp: simple_keys_array_def NUL_def less_Suc_eq)

lemma option_map_new_ptr_diverges_witness:
  "option_map_new_ptr (Some (\<lambda>j. Cstr_ptr (''a=b'' @ [NUL]))) = None"
  by (rule option_map_new_ptr_diverges) simp

lemma new_walk_preserves_wf_witness:
  "option_map_wf [''key1'' \<mapsto> ''value1'', ''key2'' \<mapsto> ''value2'']"
  by (rule new_walk_preserves_wf [OF simple_keys_array_new option_map_wf_empty])

lemma option_map_new_no_sep_key_witness:
  "Option.bind (option_map_new (host_array [''a=b=c''])) (\<lambda>om. get_bytes om ''a=b'') = None"
proof -
  have h: "option_map_new (host_array [''a=b=c'']) = Some (OptionMap (options_abs [''a=b=c'']))"
    by (rule option_map_new_host) (simp add: NUL_def)
  have "OPTIONS_SEPARATOR \<in> set ''a=b'' \<or> NUL \<in> set ''a=b''" by (simp add: OPTIONS_SEPARATOR_def)
  then show ?thesis
    using option_map_new_no_sep_key [OF h] h by simp
qed

end
