(* ===== verification/Option_Map_Laws.thy ===== *)
theory Option_Map_Laws
  imports Option_Map "HOL-Library.Multiset"
begin

text \<open>
  The laws the specification states for the Option Map on arrays that keep
  the host contract (\<open>key=value\<close> entries and bare tokens, NUL-terminated,
  ended by the null sentinel), read on \<^term>\<open>option_map_new\<close> and the
  accessors: with distinct keys the order of the entries does not matter (a
  permutation, as a multiset equality, builds the same map), and a crafted
  array of \<open>key=value\<close> entries returns every supplied text value.
  \<^term>\<open>option_entry\<close> is the host's encoding of one pair.
\<close>

definition option_entry :: "bytes \<times> bytes \<Rightarrow> bytes" where
  "option_entry kv = fst kv @ OPTIONS_SEPARATOR # snd kv"

subsection \<open>Lemmas\<close>

lemma distinct_keys_rev:
  "distinct (map (fst \<circ> parse_option) opts) \<Longrightarrow> distinct (map fst (rev (map parse_option opts)))"
proof -
  assume "distinct (map (fst \<circ> parse_option) opts)"
  then have "distinct (rev (map fst (map parse_option opts)))" by simp
  then show ?thesis by (simp only: rev_map)
qed

lemma options_abs_perm:
  assumes "distinct (map (fst \<circ> parse_option) opts)" and "mset opts = mset opts'"
  shows "options_abs opts = options_abs opts'"
proof -
  have "mset (map (fst \<circ> parse_option) opts) = mset (map (fst \<circ> parse_option) opts')"
    using assms(2) by simp
  then have "distinct (map (fst \<circ> parse_option) opts')"
    using assms(1) mset_eq_imp_distinct_iff by blast
  then have "distinct (map fst (rev (map parse_option opts)))" "distinct (map fst (rev (map parse_option opts')))"
    using assms(1) by (simp_all only: distinct_keys_rev)
  moreover have "set (rev (map parse_option opts)) = set (rev (map parse_option opts'))"
    using mset_eq_setD [OF assms(2)] by simp
  ultimately show ?thesis
    unfolding options_abs_def by (simp only: map_of_inject_set)
qed

lemma parse_option_entry:
  "OPTIONS_SEPARATOR \<notin> set (fst kv) \<Longrightarrow> parse_option (option_entry kv) = kv"
  by (cases kv) (simp add: option_entry_def parse_option_sep)

subsection \<open>Properties\<close>

text \<open>
  C35 (functional). Insertion order is irrelevant when keys are distinct: two
  host arrays holding the same entries in any order build the same map.
\<close>

theorem option_map_new_perm:
  assumes "\<forall>s \<in> set opts. NUL \<notin> set s" and "distinct (map (fst \<circ> parse_option) opts)"
    and "mset opts = mset opts'"
  shows "option_map_new (host_array opts) = option_map_new (host_array opts')"
proof -
  have "\<forall>s \<in> set opts'. NUL \<notin> set s" using assms(1) mset_eq_setD [OF assms(3)] by simp
  then show ?thesis
    using assms options_abs_perm [OF assms(2,3)] by (simp add: option_map_new_host)
qed

text \<open>
  C36 (functional). For a crafted array of \<open>key=value\<close> entries with distinct
  keys free of \<open>=\<close> and NUL and UTF-8 values, construction succeeds and the
  text lookup of every key returns exactly its supplied value.
\<close>

theorem option_map_new_crafted:
  assumes "distinct (map fst kvs)"
    and "\<forall>(k, v) \<in> set kvs. OPTIONS_SEPARATOR \<notin> set k \<and> NUL \<notin> set k \<and> NUL \<notin> set v \<and> utf8_valid v"
  shows "\<exists>om. option_map_new (host_array (map option_entry kvs)) = Some om
           \<and> (\<forall>(k, v) \<in> set kvs. get_str om k = Some v)"
proof -
  have nul: "\<forall>s \<in> set (map option_entry kvs). NUL \<notin> set s"
    using assms(2) by (auto simp: option_entry_def NUL_def OPTIONS_SEPARATOR_def)
  have "map parse_option (map option_entry kvs) = kvs"
    using assms(2) by (induction kvs) (auto simp: parse_option_entry)
  then have abs: "options_abs (map option_entry kvs) = map_of (rev kvs)"
    by (simp add: options_abs_def)
  have dr: "distinct (map fst (rev kvs))" using assms(1) by (metis distinct_rev rev_map)
  have "\<forall>(k, v) \<in> set kvs. get_str (OptionMap (map_of (rev kvs))) k = Some v"
  proof (intro ballI, clarify)
    fix k v assume kv: "(k, v) \<in> set kvs"
    then have "map_of (rev kvs) k = Some v" using map_of_eq_Some_iff [OF dr] by simp
    moreover have "utf8_valid v" using kv assms(2) by auto
    ultimately show "get_str (OptionMap (map_of (rev kvs))) k = Some v" by (simp add: get_str_def)
  qed
  then show ?thesis
    using option_map_new_host [OF nul] abs by auto
qed

subsection \<open>Witnesses\<close>

lemma option_map_new_perm_witness:
  "option_map_new (host_array [''a=1'', ''b=2'', ''noexec'']) =
     option_map_new (host_array [''noexec'', ''b=2'', ''a=1''])"
  by (rule option_map_new_perm)
    (simp_all add: NUL_def parse_option_def OPTIONS_SEPARATOR_def)

lemma option_map_new_crafted_witness:
  "\<exists>om. option_map_new (host_array (map option_entry [(''plugin_dir'', ''/x''), (''progname'', ''sudo'')])) = Some om
     \<and> get_str om ''plugin_dir'' = Some ''/x'' \<and> get_str om ''progname'' = Some ''sudo''"
proof -
  have "\<exists>om. option_map_new (host_array (map option_entry [(''plugin_dir'', ''/x''), (''progname'', ''sudo'')])) = Some om
     \<and> (\<forall>(k, v) \<in> set [(''plugin_dir'', ''/x''), (''progname'', ''sudo'')]. get_str om k = Some v)"
    by (rule option_map_new_crafted) (simp_all add: NUL_def OPTIONS_SEPARATOR_def)
  then show ?thesis by auto
qed

end
