(* ===== verification/Utf8_Decode.thy ===== *)
theory Utf8_Decode
  imports Option_Map
begin

text \<open>
  A reference for the check \<open>str::from_utf8\<close> performs in
  \<open>OptionMap::get_str\<close>, written from the definition of UTF-8 rather than from
  the standard library's tables: a leading byte gives the width and the high bits
  of the code point (\<^term>\<open>utf8_lead\<close>), each continuation byte six more bits,
  and the decoded value must be in shortest form (\<^term>\<open>utf8_min\<close>) and a
  Unicode scalar value (\<^term>\<open>scalar_value\<close>: below U+110000 and not a
  surrogate). \<^term>\<open>utf8_decode\<close> decodes a whole string, \<^term>\<open>utf8_encode\<close>
  encodes a list of code points. The lemmas show that the table-driven validator
  \<^term>\<open>utf8_valid\<close> accepts exactly what the decoder decodes, one character at
  a time, and that decoding and encoding are inverse on scalar values; the claims
  read these facts on \<open>get_str\<close>.
\<close>

definition scalar_value :: "nat \<Rightarrow> bool" where
  "scalar_value c \<longleftrightarrow> c < 0x110000 \<and> \<not> (0xD800 \<le> c \<and> c < 0xE000)"

definition utf8_lead :: "nat \<Rightarrow> (nat \<times> nat) option" where
  "utf8_lead n =
     (if n < 0x80 then Some (1, n)
      else if n < 0xC0 then None
      else if n < 0xE0 then Some (2, n - 0xC0)
      else if n < 0xF0 then Some (3, n - 0xE0)
      else if n < 0xF8 then Some (4, n - 0xF0)
      else None)"

definition utf8_cont_val :: "char \<Rightarrow> nat option" where
  "utf8_cont_val c = (if utf8_cont c then Some (of_char c - 0x80) else None)"

definition utf8_min :: "nat \<Rightarrow> nat" where
  "utf8_min w = (if w = 1 then 0 else if w = 2 then 0x80 else if w = 3 then 0x800 else 0x10000)"

definition utf8_decode_char :: "bytes \<Rightarrow> (nat \<times> nat) option" where
  "utf8_decode_char bs =
     (case bs of
        [] \<Rightarrow> None
      | b # r \<Rightarrow>
          (case utf8_lead (of_char b) of
             None \<Rightarrow> None
           | Some (w, p) \<Rightarrow>
               if length r < w - 1 then None
               else
                 (case those (map utf8_cont_val (take (w - 1) r)) of
                    None \<Rightarrow> None
                  | Some xs \<Rightarrow>
                      (let c = foldl (\<lambda>acc x. acc * 64 + x) p xs in
                       if utf8_min w \<le> c \<and> scalar_value c then Some (c, w) else None))))"

function utf8_decode :: "bytes \<Rightarrow> nat list option" where
  "utf8_decode [] = Some []"
| "utf8_decode (b # bs) =
     (case utf8_decode_char (b # bs) of
        None \<Rightarrow> None
      | Some (c, w) \<Rightarrow> map_option (Cons c) (utf8_decode (drop (w - 1) bs)))"
  by pat_completeness auto
termination
  by (relation "measure length") auto

definition utf8_encode_char :: "nat \<Rightarrow> bytes" where
  "utf8_encode_char c =
     (if c < 0x80 then [char_of c]
      else if c < 0x800 then [char_of (0xC0 + c div 64), char_of (0x80 + c mod 64)]
      else if c < 0x10000 then
        [char_of (0xE0 + c div 4096), char_of (0x80 + c div 64 mod 64), char_of (0x80 + c mod 64)]
      else [char_of (0xF0 + c div 262144), char_of (0x80 + c div 4096 mod 64),
            char_of (0x80 + c div 64 mod 64), char_of (0x80 + c mod 64)])"

definition utf8_encode :: "nat list \<Rightarrow> bytes" where
  "utf8_encode cs = concat (map utf8_encode_char cs)"

lemma those_cont:
  "those (map utf8_cont_val xs) = (if list_all utf8_cont xs then Some (map (\<lambda>c. of_char c - 0x80) xs) else None)"
  by (induction xs) (auto simp: utf8_cont_val_def)

lemma decode_char_lead:
  assumes "utf8_lead (of_char b) = Some (w, p)" and "w - 1 \<le> length bs"
  shows "utf8_decode_char (b # bs) \<noteq> None \<longleftrightarrow>
           list_all utf8_cont (take (w - 1) bs)
           \<and> utf8_min w \<le> foldl (\<lambda>acc x. acc * 64 + x) p (map (\<lambda>c. of_char c - 0x80) (take (w - 1) bs))
           \<and> scalar_value (foldl (\<lambda>acc x. acc * 64 + x) p (map (\<lambda>c. of_char c - 0x80) (take (w - 1) bs)))"
  using assms by (simp add: utf8_decode_char_def those_cont Let_def)

lemma decode_char_width:
  "utf8_decode_char (b # bs) = Some (c, w) \<Longrightarrow> utf8_lead (of_char b) = Some (w, snd (the (utf8_lead (of_char b))))"
  by (auto simp: utf8_decode_char_def Let_def split: option.splits if_splits)

lemma arith_2:
  fixes n m1 :: nat
  assumes "0xC0 \<le> n" "n < 0xE0" "0x80 \<le> m1" "m1 < 0xC0"
  shows "(0x80 \<le> (n - 0xC0) * 64 + (m1 - 0x80) \<and> scalar_value ((n - 0xC0) * 64 + (m1 - 0x80)))
           \<longleftrightarrow> 0xC2 \<le> n"
  using assms by (simp add: scalar_value_def) linarith

lemma arith_3:
  fixes n m1 m2 :: nat
  assumes "0xE0 \<le> n" "n < 0xF0" "0x80 \<le> m1" "m1 < 0xC0" "0x80 \<le> m2" "m2 < 0xC0"
  shows "(0x800 \<le> ((n - 0xE0) * 64 + (m1 - 0x80)) * 64 + (m2 - 0x80)
          \<and> scalar_value (((n - 0xE0) * 64 + (m1 - 0x80)) * 64 + (m2 - 0x80)))
       \<longleftrightarrow> (if n = 0xE0 then 0xA0 \<le> m1 else if n = 0xED then m1 \<le> 0x9F else True)"
proof -
  consider "n = 0xE0" | "n = 0xED" | "0xE0 < n \<and> n < 0xED" | "0xED < n"
    using assms(1) by linarith
  then show ?thesis
    by cases (use assms in \<open>simp add: scalar_value_def; linarith\<close>)+
qed

lemma arith_4:
  fixes n m1 m2 m3 :: nat
  assumes "0xF0 \<le> n" "n < 0xF8" "0x80 \<le> m1" "m1 < 0xC0" "0x80 \<le> m2" "m2 < 0xC0" "0x80 \<le> m3" "m3 < 0xC0"
  shows "(0x10000 \<le> (((n - 0xF0) * 64 + (m1 - 0x80)) * 64 + (m2 - 0x80)) * 64 + (m3 - 0x80)
          \<and> scalar_value ((((n - 0xF0) * 64 + (m1 - 0x80)) * 64 + (m2 - 0x80)) * 64 + (m3 - 0x80)))
       \<longleftrightarrow> (if n = 0xF0 then 0x90 \<le> m1 else if n < 0xF4 then True else if n = 0xF4 then m1 \<le> 0x8F else False)"
proof -
  consider "n = 0xF0" | "0xF0 < n \<and> n < 0xF4" | "n = 0xF4" | "0xF4 < n"
    using assms(1) by linarith
  then show ?thesis
    by cases (use assms in \<open>simp add: scalar_value_def; linarith\<close>)+
qed

lemma utf8_cont_range: "utf8_cont c \<longleftrightarrow> 0x80 \<le> (of_char c :: nat) \<and> (of_char c :: nat) < 0xC0"
  by (auto simp: utf8_cont_def)

lemma decode_step_3:
  assumes n: "0xE0 \<le> (of_char b :: nat)" "(of_char b :: nat) < 0xF0"
  shows "utf8_decode_char (b # bs) \<noteq> None \<longleftrightarrow>
           2 \<le> length bs \<and> utf8_second_ok b (hd bs) \<and> (\<forall>c \<in> set (take 1 (tl bs)). utf8_cont c)"
proof -
  have lead: "utf8_lead (of_char b) = Some (3, of_char b - 0xE0)" using n by (simp add: utf8_lead_def)
  show ?thesis
  proof (cases "2 \<le> length bs")
    case False
    then show ?thesis using lead by (simp add: utf8_decode_char_def)
  next
    case True
    then obtain b1 b2 r where bs: "bs = b1 # b2 # r"
      by (cases bs; cases "tl bs") auto
    have dec: "utf8_decode_char (b # bs) \<noteq> None \<longleftrightarrow> utf8_cont b1 \<and> utf8_cont b2 \<and>
        (0x800 \<le> (((of_char b :: nat) - 0xE0) * 64 + (of_char b1 - 0x80)) * 64 + (of_char b2 - 0x80)
         \<and> scalar_value ((((of_char b :: nat) - 0xE0) * 64 + (of_char b1 - 0x80)) * 64 + (of_char b2 - 0x80)))"
      using decode_char_lead [OF lead, of bs] by (simp add: bs utf8_min_def)
    show ?thesis
    proof (cases "utf8_cont b1 \<and> utf8_cont b2")
      case True
      then have "0x80 \<le> (of_char b1 :: nat)" "(of_char b1 :: nat) < 0xC0"
        "0x80 \<le> (of_char b2 :: nat)" "(of_char b2 :: nat) < 0xC0"
        by (simp_all add: utf8_cont_range)
      note ar = arith_3 [OF n this]
      show ?thesis
        unfolding dec ar using True n by (auto simp: bs utf8_cont_range utf8_second_ok_def Let_def)
    next
      case False
      then show ?thesis
        unfolding dec using n by (auto simp: bs utf8_cont_range utf8_second_ok_def Let_def)
    qed
  qed
qed

lemma decode_step_2:
  assumes n: "0xC0 \<le> (of_char b :: nat)" "(of_char b :: nat) < 0xE0"
  shows "utf8_decode_char (b # bs) \<noteq> None \<longleftrightarrow>
           0xC2 \<le> (of_char b :: nat) \<and> 1 \<le> length bs \<and> utf8_second_ok b (hd bs)"
proof -
  have lead: "utf8_lead (of_char b) = Some (2, of_char b - 0xC0)" using n by (simp add: utf8_lead_def)
  show ?thesis
  proof (cases bs)
    case Nil
    then show ?thesis using lead by (simp add: utf8_decode_char_def)
  next
    case (Cons b1 r)
    have dec: "utf8_decode_char (b # bs) \<noteq> None \<longleftrightarrow> utf8_cont b1 \<and>
        (0x80 \<le> ((of_char b :: nat) - 0xC0) * 64 + (of_char b1 - 0x80)
         \<and> scalar_value (((of_char b :: nat) - 0xC0) * 64 + (of_char b1 - 0x80)))"
      using decode_char_lead [OF lead, of bs] by (simp add: Cons utf8_min_def)
    show ?thesis
    proof (cases "utf8_cont b1")
      case True
      then have "0x80 \<le> (of_char b1 :: nat)" "(of_char b1 :: nat) < 0xC0"
        by (simp_all add: utf8_cont_range)
      note ar = arith_2 [OF n this]
      show ?thesis
        unfolding dec ar using True n by (auto simp: Cons utf8_cont_range utf8_second_ok_def Let_def)
    next
      case False
      then show ?thesis
        unfolding dec using n by (auto simp: Cons utf8_cont_range utf8_second_ok_def Let_def)
    qed
  qed
qed

lemma decode_step_4:
  assumes n: "0xF0 \<le> (of_char b :: nat)" "(of_char b :: nat) < 0xF8"
  shows "utf8_decode_char (b # bs) \<noteq> None \<longleftrightarrow>
           (of_char b :: nat) < 0xF5 \<and> 3 \<le> length bs \<and> utf8_second_ok b (hd bs)
           \<and> (\<forall>c \<in> set (take 2 (tl bs)). utf8_cont c)"
proof -
  have lead: "utf8_lead (of_char b) = Some (4, of_char b - 0xF0)" using n by (simp add: utf8_lead_def)
  show ?thesis
  proof (cases "3 \<le> length bs")
    case False
    then show ?thesis using lead by (simp add: utf8_decode_char_def)
  next
    case True
    then obtain b1 b2 b3 r where bs: "bs = b1 # b2 # b3 # r"
      by (cases bs; cases "tl bs"; cases "tl (tl bs)") auto
    have dec: "utf8_decode_char (b # bs) \<noteq> None \<longleftrightarrow> utf8_cont b1 \<and> utf8_cont b2 \<and> utf8_cont b3 \<and>
        (0x10000 \<le> ((((of_char b :: nat) - 0xF0) * 64 + (of_char b1 - 0x80)) * 64 + (of_char b2 - 0x80)) * 64
                    + (of_char b3 - 0x80)
         \<and> scalar_value (((((of_char b :: nat) - 0xF0) * 64 + (of_char b1 - 0x80)) * 64 + (of_char b2 - 0x80)) * 64
                    + (of_char b3 - 0x80)))"
      using decode_char_lead [OF lead, of bs] by (simp add: bs utf8_min_def)
    show ?thesis
    proof (cases "utf8_cont b1 \<and> utf8_cont b2 \<and> utf8_cont b3")
      case True
      then have "0x80 \<le> (of_char b1 :: nat)" "(of_char b1 :: nat) < 0xC0"
        "0x80 \<le> (of_char b2 :: nat)" "(of_char b2 :: nat) < 0xC0"
        "0x80 \<le> (of_char b3 :: nat)" "(of_char b3 :: nat) < 0xC0"
        by (simp_all add: utf8_cont_range)
      note ar = arith_4 [OF n this]
      show ?thesis
        unfolding dec ar using True n by (auto simp: bs utf8_cont_range utf8_second_ok_def Let_def)
    next
      case False
      then show ?thesis
        unfolding dec using n by (auto simp: bs utf8_cont_range utf8_second_ok_def Let_def)
    qed
  qed
qed

lemma decode_char_ascii:
  "(of_char b :: nat) < 0x80 \<Longrightarrow> utf8_decode_char (b # bs) = Some (of_char b, 1)"
  by (simp add: utf8_decode_char_def utf8_lead_def utf8_min_def scalar_value_def)

lemma utf8_decode_char_ok:
  "utf8_decode_char (b # bs) \<noteq> None \<longleftrightarrow>
     (let w = utf8_char_width b in w \<noteq> 0 \<and> (w = 1 \<or> (w - 1 \<le> length bs \<and> utf8_second_ok b (hd bs)
        \<and> (\<forall>c \<in> set (take (w - 2) (tl bs)). utf8_cont c))))"
proof -
  consider "(of_char b :: nat) < 0x80" | "0x80 \<le> (of_char b :: nat) \<and> (of_char b :: nat) < 0xC0"
    | "0xC0 \<le> (of_char b :: nat) \<and> (of_char b :: nat) < 0xE0"
    | "0xE0 \<le> (of_char b :: nat) \<and> (of_char b :: nat) < 0xF0"
    | "0xF0 \<le> (of_char b :: nat) \<and> (of_char b :: nat) < 0xF8" | "0xF8 \<le> (of_char b :: nat)"
    by linarith
  then show ?thesis
  proof cases
    case 1
    then show ?thesis by (simp add: decode_char_ascii)
  next
    case 2
    then show ?thesis by (simp add: utf8_decode_char_def utf8_lead_def utf8_char_width_def)
  next
    case 3
    then show ?thesis using decode_step_2 [of b bs] by (auto simp: utf8_char_width_def Let_def)
  next
    case 4
    then show ?thesis using decode_step_3 [of b bs] by (auto simp: utf8_char_width_def Let_def)
  next
    case 5
    then show ?thesis using decode_step_4 [of b bs] by (auto simp: utf8_char_width_def Let_def)
  next
    case 6
    then show ?thesis by (simp add: utf8_decode_char_def utf8_lead_def utf8_char_width_def)
  qed
qed

lemma decode_char_Some_width:
  assumes "utf8_decode_char (b # bs) = Some (c, w)"
  shows "w = utf8_char_width b"
proof -
  have "utf8_char_width b \<noteq> 0" using assms utf8_decode_char_ok [of b bs] by (simp add: Let_def)
  moreover have "utf8_lead (of_char b) = Some (w, snd (the (utf8_lead (of_char b))))"
    using assms by (rule decode_char_width)
  ultimately show ?thesis
    by (auto simp: utf8_lead_def utf8_char_width_def Let_def split: if_splits)
qed

lemma utf8_valid_decode: "utf8_valid s \<longleftrightarrow> utf8_decode s \<noteq> None"
proof (induction s rule: utf8_valid.induct)
  case 1
  then show ?case by simp
next
  case (2 b bs)
  let ?w = "utf8_char_width b"
  show ?case
  proof (cases "?w = 1")
    case True
    then have "(of_char b :: nat) < 0x80"
      by (auto simp: utf8_char_width_def Let_def split: if_splits)
    then show ?thesis using True "2.IH"(1) by (simp add: decode_char_ascii)
  next
    case False
    show ?thesis
    proof (cases "utf8_decode_char (b # bs)")
      case None
      then show ?thesis using False utf8_decode_char_ok [of b bs] by (auto simp: Let_def)
    next
      case (Some cw)
      then obtain c where cw: "utf8_decode_char (b # bs) = Some (c, ?w)"
        using decode_char_Some_width by (cases cw) fastforce
      then have ok: "?w \<noteq> 0" "?w - 1 \<le> length bs" "utf8_second_ok b (hd bs)"
        "\<forall>c \<in> set (take (?w - 2) (tl bs)). utf8_cont c"
        using False utf8_decode_char_ok [of b bs] by (auto simp: Let_def)
      have "utf8_valid (drop (?w - 1) bs) \<longleftrightarrow> utf8_decode (drop (?w - 1) bs) \<noteq> None"
        using "2.IH"(2) [OF refl False ok(1)] .
      then show ?thesis using cw ok False by (simp add: Let_def)
    qed
  qed
qed

lemma of_char_char_of_less [simp]: "n < 256 \<Longrightarrow> (of_char (char_of n :: char) :: nat) = n"
  by simp

lemma cont_byte: "utf8_cont_val (char_of (0x80 + x mod 64)) = Some (x mod 64)"
proof -
  have "0x80 + x mod 64 < (256::nat)" by simp
  then show ?thesis by (simp add: utf8_cont_val_def utf8_cont_def)
qed

lemma recompose_3: "((c::nat) div 4096 * 64 + c div 64 mod 64) * 64 + c mod 64 = c"
proof -
  have "c div 4096 = c div 64 div 64" using div_mult2_eq [of c 64 64] by simp
  then have "c div 4096 * 64 + c div 64 mod 64 = c div 64" by simp
  then show ?thesis by simp
qed

lemma recompose_4:
  "(((c::nat) div 262144 * 64 + c div 4096 mod 64) * 64 + c div 64 mod 64) * 64 + c mod 64 = c"
proof -
  have "c div 262144 = c div 64 div 4096" using div_mult2_eq [of c 64 4096] by simp
  moreover have "c div 4096 = c div 64 div 64" using div_mult2_eq [of c 64 64] by simp
  ultimately have "((c div 262144 * 64 + c div 4096 mod 64) * 64 + c div 64 mod 64) = c div 64"
    using recompose_3 [of "c div 64"] by simp
  then show ?thesis by simp
qed

lemma encode_decode_char:
  assumes "scalar_value c"
  shows "utf8_decode_char (utf8_encode_char c @ r) = Some (c, length (utf8_encode_char c))"
proof -
  consider "c < 0x80" | "0x80 \<le> c \<and> c < 0x800" | "0x800 \<le> c \<and> c < 0x10000" | "0x10000 \<le> c"
    by linarith
  then show ?thesis
  proof cases
    case 1
    then show ?thesis
      by (simp add: utf8_encode_char_def utf8_decode_char_def utf8_lead_def utf8_min_def assms)
  next
    case 2
    then have "c div 64 < 32" by (simp add: div_less_iff_less_mult)
    then have m: "(0xC0 + c div 64) mod 256 = 0xC0 + c div 64" by simp
    have lead: "utf8_lead (0xC0 + c div 64) = Some (2, c div 64)"
      using \<open>c div 64 < 32\<close> by (simp add: utf8_lead_def)
    have "(c div 64) * 64 + c mod 64 = c" by simp
    then show ?thesis using 2 assms
      by (simp add: utf8_encode_char_def utf8_decode_char_def m lead cont_byte utf8_min_def)
  next
    case 3
    then have "c div 4096 < 16" by (simp add: div_less_iff_less_mult)
    then have m: "(0xE0 + c div 4096) mod 256 = 0xE0 + c div 4096" by simp
    have lead: "utf8_lead (0xE0 + c div 4096) = Some (3, c div 4096)"
      using \<open>c div 4096 < 16\<close> by (simp add: utf8_lead_def)
    note recompose_3 [of c]
    then show ?thesis using 3 assms
      by (simp add: utf8_encode_char_def utf8_decode_char_def m lead cont_byte utf8_min_def)
  next
    case 4
    then have "c < 0x110000" using assms by (simp add: scalar_value_def)
    then have "c div 262144 < 5" by (simp add: div_less_iff_less_mult)
    then have m: "(0xF0 + c div 262144) mod 256 = 0xF0 + c div 262144" by simp
    have lead: "utf8_lead (0xF0 + c div 262144) = Some (4, c div 262144)"
      using \<open>c div 262144 < 5\<close> by (simp add: utf8_lead_def)
    note recompose_4 [of c]
    then show ?thesis using 4 assms
      by (simp add: utf8_encode_char_def utf8_decode_char_def m lead cont_byte utf8_min_def)
  qed
qed

lemma encode_2:
  fixes p x1 :: nat
  assumes "p < 32" "x1 < 64" "0x80 \<le> p * 64 + x1"
  shows "utf8_encode_char (p * 64 + x1) = [char_of (0xC0 + p), char_of (0x80 + x1)]"
proof -
  have "p * 64 + x1 < 0x800" using assms by linarith
  then show ?thesis using assms by (simp add: utf8_encode_char_def)
qed

lemma div64_intro: "x < 64 \<Longrightarrow> ((a::nat) * 64 + x) div 64 = a"
  by simp

lemma mod64_intro: "x < 64 \<Longrightarrow> ((a::nat) * 64 + x) mod 64 = x"
  by simp

lemma encode_3:
  fixes p x1 x2 :: nat
  assumes "p < 16" "x1 < 64" "x2 < 64" "0x800 \<le> (p * 64 + x1) * 64 + x2"
  shows "utf8_encode_char ((p * 64 + x1) * 64 + x2) = [char_of (0xE0 + p), char_of (0x80 + x1), char_of (0x80 + x2)]"
proof -
  define c where "c = (p * 64 + x1) * 64 + x2"
  have d1: "c div 64 = p * 64 + x1" "c mod 64 = x2"
    unfolding c_def using assms(3) by (rule div64_intro, rule mod64_intro)
  have "c div 4096 = p"
    using div_mult2_eq [of c 64 64] div64_intro [OF assms(2), of p] by (simp add: d1)
  moreover have "c div 64 mod 64 = x1" unfolding d1 using assms(2) by (rule mod64_intro)
  moreover have "0x800 \<le> c" "c < 0x10000" using assms unfolding c_def by (simp_all add: algebra_simps)
  ultimately show ?thesis unfolding c_def [symmetric] by (simp add: utf8_encode_char_def d1)
qed

lemma encode_4:
  fixes p x1 x2 x3 :: nat
  assumes "p < 8" "x1 < 64" "x2 < 64" "x3 < 64" "0x10000 \<le> ((p * 64 + x1) * 64 + x2) * 64 + x3"
  shows "utf8_encode_char (((p * 64 + x1) * 64 + x2) * 64 + x3)
           = [char_of (0xF0 + p), char_of (0x80 + x1), char_of (0x80 + x2), char_of (0x80 + x3)]"
proof -
  define c where "c = ((p * 64 + x1) * 64 + x2) * 64 + x3"
  have d1: "c div 64 = (p * 64 + x1) * 64 + x2" "c mod 64 = x3"
    unfolding c_def using assms(4) by (rule div64_intro, rule mod64_intro)
  have d2: "c div 4096 = p * 64 + x1"
    using div_mult2_eq [of c 64 64] div64_intro [OF assms(3), of "p * 64 + x1"] by (simp add: d1)
  have "c div 262144 = p"
    using div_mult2_eq [of c 4096 64] div64_intro [OF assms(2), of p] by (simp add: d2)
  moreover have "c div 4096 mod 64 = x1" unfolding d2 using assms(2) by (rule mod64_intro)
  moreover have "c div 64 mod 64 = x2" unfolding d1 using assms(3) by (rule mod64_intro)
  moreover have "0x10000 \<le> c" using assms unfolding c_def by simp
  ultimately show ?thesis unfolding c_def [symmetric] by (simp add: utf8_encode_char_def d1)
qed

lemma cont_payload: "utf8_cont c \<Longrightarrow> (of_char c :: nat) - 0x80 < 64 \<and> char_of (0x80 + ((of_char c :: nat) - 0x80)) = c"
  by (auto simp: utf8_cont_def)

lemma decode_char_encode:
  assumes dec: "utf8_decode_char (b # bs) = Some (c, w)"
  shows "scalar_value c \<and> utf8_encode_char c @ drop (w - 1) bs = b # bs"
proof -
  from dec obtain p where lead: "utf8_lead (of_char b) = Some (w, p)" and len: "w - 1 \<le> length bs"
    and conts: "list_all utf8_cont (take (w - 1) bs)"
    and c: "c = foldl (\<lambda>acc x. acc * 64 + x) p (map (\<lambda>c. of_char c - 0x80) (take (w - 1) bs))"
    and ok: "utf8_min w \<le> c" "scalar_value c"
    by (auto simp: utf8_decode_char_def those_cont Let_def split: option.splits if_splits)
  let ?n = "of_char b :: nat"
  have bb: "char_of ?n = b" by simp
  consider "w = 1" "p = ?n" "?n < 0x80" | "w = 2" "p = ?n - 0xC0" "0xC0 \<le> ?n" "?n < 0xE0"
    | "w = 3" "p = ?n - 0xE0" "0xE0 \<le> ?n" "?n < 0xF0" | "w = 4" "p = ?n - 0xF0" "0xF0 \<le> ?n" "?n < 0xF8"
    using lead by (auto simp: utf8_lead_def split: if_splits)
  then have "utf8_encode_char c @ drop (w - 1) bs = b # bs"
  proof cases
    case 1
    then show ?thesis using c by (simp add: utf8_encode_char_def)
  next
    case 2
    then obtain b1 r where bs: "bs = b1 # r" using len by (cases bs) auto
    then have "utf8_cont b1" using conts 2 by simp
    then show ?thesis
      using encode_2 [of p "of_char b1 - 0x80"] cont_payload [of b1] ok 2 c bs by (simp add: utf8_min_def)
  next
    case 3
    then obtain b1 b2 r where bs: "bs = b1 # b2 # r" using len by (cases bs; cases "tl bs") auto
    then have "utf8_cont b1" "utf8_cont b2" using conts 3 by simp_all
    then show ?thesis
      using encode_3 [of p "of_char b1 - 0x80" "of_char b2 - 0x80"] cont_payload [of b1]
        cont_payload [of b2] ok 3 c bs by (simp add: utf8_min_def)
  next
    case 4
    then obtain b1 b2 b3 r where bs: "bs = b1 # b2 # b3 # r"
      using len by (cases bs; cases "tl bs"; cases "tl (tl bs)") auto
    have "p < 8" using 4 by linarith
    moreover have "utf8_cont b1" "utf8_cont b2" "utf8_cont b3" using conts 4 bs by simp_all
    ultimately show ?thesis
      using encode_4 [of p "of_char b1 - 0x80" "of_char b2 - 0x80" "of_char b3 - 0x80"] cont_payload [of b1]
        cont_payload [of b2] cont_payload [of b3] ok 4 c bs by (simp add: utf8_min_def)
  qed
  with ok(2) show ?thesis by simp
qed

lemma utf8_encode_char_Cons: "\<exists>b bs. utf8_encode_char c = b # bs"
  by (simp add: utf8_encode_char_def)

lemma utf8_decode_encode: "list_all scalar_value cs \<Longrightarrow> utf8_decode (utf8_encode cs) = Some cs"
proof (induction cs)
  case Nil
  then show ?case by (simp add: utf8_encode_def)
next
  case (Cons c cs)
  obtain b bs where e: "utf8_encode_char c = b # bs" using utf8_encode_char_Cons by blast
  have "utf8_decode_char (b # bs @ utf8_encode cs) = Some (c, Suc (length bs))"
    using encode_decode_char [of c "utf8_encode cs"] Cons.prems e by simp
  then show ?case using Cons e by (simp add: utf8_encode_def)
qed

lemma utf8_encode_decode: "utf8_decode s = Some cs \<Longrightarrow> list_all scalar_value cs \<and> utf8_encode cs = s"
proof (induction s arbitrary: cs rule: utf8_decode.induct)
  case 1
  then show ?case by (simp add: utf8_encode_def)
next
  case (2 b bs)
  then obtain c w cs' where dec: "utf8_decode_char (b # bs) = Some (c, w)"
    and rest: "utf8_decode (drop (w - 1) bs) = Some cs'" and cs: "cs = c # cs'"
    by (auto split: option.splits)
  have "list_all scalar_value cs' \<and> utf8_encode cs' = drop (w - 1) bs"
    using "2.IH" [OF dec refl rest] .
  then show ?case using decode_char_encode [OF dec] cs by (simp add: utf8_encode_def)
qed

subsection \<open>Properties\<close>

text \<open>
  C34 (equivalence). \<open>get_str\<close> returns a stored value exactly when it decodes
  as UTF-8 under the reference decoder: the table-driven check agrees with the
  definition of UTF-8 (shortest form, no surrogates, nothing above U+10FFFF).
\<close>

theorem get_str_decode:
  "get_str om k = Some v \<longleftrightarrow> get_bytes om k = Some v \<and> utf8_decode v \<noteq> None"
  by (auto simp: get_str_def utf8_valid_decode bind_eq_Some_conv)

end
