(* ===== verification/Spec2Isabelle.thy ===== *)
theory Spec2Isabelle
  imports Error_Messages Option_Map_Steps Option_Map_Laws Utf8_Decode
begin

text \<open>
  A verification development of the configuration layer of \<open>sudo_plugin\<close>
  (\<open>src/sudo_plugin/src/plugin/option_map.rs\<close> and \<open>settings.rs\<close>): the
  code that turns the host's NUL-terminated array of \<open>key=value\<close> strings
  into a byte map (\<open>OptionMap\<close>) and that map into the typed \<open>Settings\<close>
  record. The layers, leaf first, and the theories that model them:

  \<^item> \<open>Plugin_Prelude\<close>: byte strings as \<^typ>\<open>char list\<close>; the error type
    of the crate's \<open>errors\<close> module and the standard parsers, with a Rust
    panic as a distinguished error that \<open>Result::ok\<close> and
    \<open>Result::unwrap_or\<close> do not catch (\<^term>\<open>res_ok\<close>,
    \<^term>\<open>res_unwrap_or\<close>); the \<open>?\<close> operator (\<^term>\<open>bind_res\<close>);
    \<open>Iterator::position\<close> (\<^term>\<open>position\<close>) and \<open>str::split\<close>
    (\<^term>\<open>split_on\<close>) with the list lemmas the components share.
  \<^item> \<open>Utf8\<close>: \<open>str::from_utf8\<close> as the validator
    \<^term>\<open>utf8_valid\<close>, structured like the standard library's (width table,
    second-byte ranges, continuation bytes); closed under concatenation.
  \<^item> \<open>Option_Map\<close>: \<open>OptionMap::new\<close> over an explicit model of host
    memory (\<^typ>\<open>cstr_array_ptr\<close>, \<^typ>\<open>cstr_ptr\<close>); reading past an
    allocation is undefined behaviour, the value \<^term>\<open>None\<close>. The loop is
    \<^term>\<open>new_loop\<close>, one entry is \<^term>\<open>parse_option\<close>, the accessors
    are \<^term>\<open>get_bytes\<close>, \<^term>\<open>get_str\<close> and \<^term>\<open>get\<close> (the
    coercion passed explicitly, as Rust resolves it from the type). The abstract
    specification is \<^term>\<open>options_abs\<close>, \<^term>\<open>map_of\<close> of the reversed
    entries; the refinement theorem, last-write-wins, the self-mapped bare
    token, the sentinel precondition, the entry round trip and the errors of
    \<open>get\<close> are claims C1 to C5 and C7.
  \<^item> \<open>Option_Map_Loop\<close>: the same \<open>while\<close> loop at the level of
    pointers, \<^term>\<open>new_walk\<close>, a \<^theory_text>\<open>partial_function (option)\<close> over an
    unbounded sequence of cells read at \<open>ptr.offset(i)\<close>, and
    \<^term>\<open>option_map_new_ptr\<close>, \<open>OptionMap::new\<close> on such a pointer; the array
    of the unit test \<open>new_parses_simple_keys\<close> is \<^term>\<open>simple_keys_array\<close>.
    The lemmas show that the walk equals the list model up to any null cell.
    Claims C28 to C32: the walk reads no cell past the sentinel and no byte past
    a terminator (two memories that agree on the C strings before the null cell
    give the same map), returns when the contract holds, never returns without a
    null cell, and keeps the
    entry invariant \<^term>\<open>option_map_wf\<close> (keys free of \<open>=\<close> and NUL,
    values free of NUL), so no key with \<open>=\<close> is ever found.
  \<^item> \<open>Option_Map_Steps\<close>: one iteration of that loop as the step relation
    \<^term>\<open>new_step\<close> on (offset, map) states; runs of the step relation ending
    at a null cell are exactly the results of \<^term>\<open>new_walk\<close>, and under
    the host contract a final state is reached (C37).
  \<^item> \<open>Option_Map_Laws\<close>: the laws of the specification for arrays that keep
    the host contract: with distinct keys a permutation of the entries (a
    multiset equality) builds the same map (C35), and a crafted array of
    \<open>key=value\<close> entries returns every supplied text value (C36).
  \<^item> \<open>Utf8_Decode\<close>: a UTF-8 decoder and encoder written from the Unicode
    definition (lead byte, six bits per continuation byte, shortest form, scalar
    values), proved equal to the validator and inverse to each other; claim
    C34 reads this on \<open>get_str\<close>.
  \<^item> \<open>Coercion\<close>: the \<open>FromSudoOption\<close> and \<open>FromSudoOptionList\<close>
    implementations of the \<open>traits\<close> module, which is not among the sources
    and is modelled from the specification: text as is, \<open>bool\<close> accepting
    exactly \<open>true\<close> and \<open>false\<close>, \<open>u64\<close> as a \<^typ>\<open>64 word\<close> built by
    the checked multiply-and-add digit loop \<^term>\<open>u64_digits\<close> (overflow an
    error, never a wrap-around), and lists split on the element type's separator
    with the first element error returned. The lemmas characterise each
    coercion against a reference (\<^term>\<open>u64_numeral\<close>, the unbounded decimal
    value below \<open>2^64\<close>), show that none of them panics, and give the list
    round trip.
  \<^item> \<open>Ip_Addr\<close>: \<open>std::net::IpAddr\<close> (\<^typ>\<open>ip_addr\<close>, IPv4 octets as
    \<^typ>\<open>8 word\<close>, IPv6 groups as \<^typ>\<open>16 word\<close>) and its parser
    \<^term>\<open>ip_addr_from_str\<close>, a transcription of \<open>core::net::parser\<close>:
    readers of type \<^typ>\<open>string \<Rightarrow> ('a \<times> string) option\<close>, whose
    \<^term>\<open>None\<close> restores the input as \<open>read_atomically\<close> does;
    \<^term>\<open>read_number\<close> (radix, digit limit, value bound, leading-zero
    rule), \<^term>\<open>read_ipv4_addr\<close>, the IPv6 group loop
    \<^term>\<open>read_groups\<close> with the embedded IPv4 tail, and
    \<^term>\<open>read_ipv6_addr\<close> with the \<open>::\<close> elision. The lemmas prove the
    IPv4 reader equal to a split-at-dots reference (\<^term>\<open>ipv4_from_str\<close>)
    on every string, and that every address printed in dotted decimal or in the
    preferred IPv6 form (\<^term>\<open>ipv6_to_string\<close>) parses back. The standard
    library is not part of the repository, so this theory carries no claim of
    its own; it makes the NetAddr claims hold of the parser the code calls.
  \<^item> \<open>Ip_Display\<close>: \<open>Display for IpAddr\<close> (\<^term>\<open>ip_display\<close>):
    dotted decimal for IPv4; for IPv6 \<open>::ffff:a.b.c.d\<close> when the address is
    IPv4-mapped (\<^term>\<open>to_ipv4_mapped\<close>, with \<open>u16::to_be_bytes\<close>), else
    the first longest run of at least two zero groups, found by the loop
    \<^term>\<open>zero_span\<close>, replaced by \<open>::\<close>. The lemmas give the invariant of
    that loop (the span it returns lies in the address and holds only zero
    groups) and prove that \<^term>\<open>ip_addr_from_str\<close> reads every displayed
    address back, through the elision and embedded-IPv4 branches of the parser.
  \<^item> \<open>Net_Addr\<close>: \<open>NetAddr\<close> as the record \<^typ>\<open>'a net_addr\<close> and
    its coercion \<^term>\<open>net_addr_from_sudo_option\<close>, split at the first
    \<open>/\<close> with \<open>mid\<close> defaulting to the length; the slice
    \<open>s[mid + 1 ..]\<close> past the end is a \<^term>\<open>Panic\<close>. The address parser is a
    parameter, so C10, C12 and C13 hold for any parser; the round trips
    (C11 for lists in the preferred form, C14 for one token in the displayed
    form of either family, mixed families included) and the rejection of every
    prefix-length mask (C15) instantiate it with \<^term>\<open>ip_addr_from_str\<close>. Claims C10 to C15.
  \<^item> \<open>Settings\<close>: the 26-field record \<^typ>\<open>'a settings\<close> in source order,
    \<^term>\<open>settings_new\<close> as 25 lookups in the order of the struct literal
    (\<open>?\<close> on the three required fields, \<open>ok\<close>, \<open>unwrap_or(false)\<close> and
    \<open>unwrap_or_else\<close> on the others, none of which catches a panic), and
    \<^term>\<open>flags\<close>. Claims C8 and C9 read typed lookups of \<open>u64\<close> and
    \<open>bool\<close>; C16 to C23 give every field of a constructed value, the first
    missing required key, the exact success condition and the panic that escapes
    construction; C24 the flag list.
    C33 shows that \<open>Settings::new\<close> reads only its 25 keys
    (\<^term>\<open>settings_keys\<close>): any other key of the map changes nothing but
    \<open>raw\<close>.
  \<^item> \<open>Error_Messages\<close>: the messages the user sees. \<open>OptionMap::get\<close>
    attaches \<open>option k wasn't provided to the plugin\<close> and \<open>option k couldn't
    be parsed\<close> with \<open>chain_err\<close> (\<^term>\<open>error_display\<close>,
    \<open>option_map.rs\<close> lines 92 and 97); \<^term>\<open>message_reason\<close> reads a message
    back into its reason and key. C6: a failed \<open>Settings::new\<close> that does not
    panic reports the first missing required key, readable from its message.
  \<^item> This theory: the end-to-end properties from the host array to the
    settings (C26, C27), and C25: an empty token in \<open>network_addrs\<close> (here a
    trailing space) makes the list coercion fail, so a constructed
    \<open>Settings\<close> has no addresses at all.

  No fuel is needed. The list model of the options array is finite (reading past
  an allocation is \<^term>\<open>None\<close>), so \<^term>\<open>new_loop\<close> is structural; the
  pointer model has no end of its own, and \<^term>\<open>new_walk\<close> is a partial
  function whose termination is proved as such under the host contract (C29) and
  refuted without a sentinel (C30). The digit, split and UTF-8 loops recurse on
  the string, and the IPv6 group loop \<^term>\<open>read_groups\<close> counts up to its
  limit (termination by the measure \<open>limit - i\<close>), so every other definition
  is total. Machine integers are kept at their width only where the code has
  them (\<open>u64\<close> fields); octets are \<^typ>\<open>8 word\<close> and IPv6 groups
  \<^typ>\<open>16 word\<close>, the digit readers bounding the value before the
  conversion, so no address wraps around.

  Findings shown by the development: the coercion of a token without \<open>/\<close>
  whose address parses panics instead of failing with a missing-mask error
  (\<open>settings.rs\<close> line 128), and the panic escapes \<open>Settings::new\<close>
  although \<open>network_addrs\<close> is optional; the mask is parsed as an address, so
  a CIDR prefix such as \<open>/24\<close> is rejected, and nothing checks that the
  address and the mask are of the same family; a leading, trailing or doubled
  space in \<open>network_addrs\<close> silently empties the whole address list;
  \<open>get\<close> reports an undecodable value exactly like a missing one and drops
  the parse error's detail.

  Not modelled: \<open>lib.rs\<close> (lint attributes and module declarations), the
  entry-point macros and the host's binary interface (\<open>sudo_plugin_sys\<close>),
  which only deliver the raw pointer this development starts from; the
  \<open>error_chain\<close> machinery beyond the message of an error (its cause chain
  and backtrace); the test module of \<open>option_map.rs\<close>
  beyond the array and the assertions of its one test; the \<open>FromSudoOption\<close>
  instances of the traits module that no field of \<open>Settings\<close> uses. The
  address parser follows the current standard library, which rejects a
  leading zero in an IPv4 octet (older toolchains read \<open>010\<close> as ten);
  the 15-byte length check of \<open>Ipv4Addr::from_str\<close> is left out because
  \<open>IpAddr::from_str\<close>, the parser the code calls, has none, and the IPv4
  reader can consume at most 15 bytes anyway. \<open>Display for Ipv6Addr\<close> is
  the current one, which prints only IPv4-mapped addresses in dotted form
  (older toolchains also printed \<open>::a.b.c.d\<close>); its width and precision
  padding is not modelled. Every line of \<open>option_map.rs\<close> and
  \<open>settings.rs\<close> that is not mapped is a licence header, an import, a
  documentation comment or a test-module attribute, so no further code of the
  sources remains to be modelled.
\<close>


subsection \<open>From the host array to the settings\<close>

lemma get_str_host:
  "\<forall>x \<in> set opts. NUL \<notin> set x \<Longrightarrow> option_map_new (host_array opts) = Some om \<Longrightarrow>
     get_str om k = Option.bind (options_abs opts k) (\<lambda>v. if utf8_valid v then Some v else None)"
  by (auto simp: option_map_new_host get_str_def)

text \<open>
  C26 (refinement). End to end: a host array of NUL-free entries whose last
  \<open>plugin_dir\<close>, \<open>plugin_path\<close> and \<open>progname\<close> entries carry UTF-8
  text, and which has no \<open>network_addrs\<close>, yields an option map and from it
  a \<open>Settings\<close> value with exactly those three strings, no addresses, and the
  map kept as \<open>raw\<close>.
\<close>

theorem host_array_settings:
  assumes "\<forall>x \<in> set opts. NUL \<notin> set x"
    and "options_abs opts ''plugin_dir'' = Some d" and "utf8_valid d"
    and "options_abs opts ''plugin_path'' = Some p" and "utf8_valid p"
    and "options_abs opts ''progname'' = Some n" and "utf8_valid n"
    and "options_abs opts ''network_addrs'' = None"
  shows "\<exists>om s. option_map_new (host_array opts) = Some om \<and> settings_new parse_addr om = Inr s
           \<and> plugin_dir s = d \<and> plugin_path s = p \<and> progname s = n \<and> network_addrs s = [] \<and> raw s = om"
proof -
  let ?om = "OptionMap (options_abs opts)"
  have om: "option_map_new (host_array opts) = Some ?om"
    using assms(1) by (rule option_map_new_host)
  have req: "get_str ?om ''plugin_dir'' = Some d" "get_str ?om ''plugin_path'' = Some p"
    "get_str ?om ''progname'' = Some n"
    using assms(2-7) by (simp_all add: get_str_def)
  have net: "get (net_addrs_from_sudo_option parse_addr) ?om ''network_addrs''
               = Inl (Missing_option ''network_addrs'')"
    using assms(8) by (simp add: get_def get_str_def)
  have "settings_new parse_addr ?om = Inr (settings_of ?om d p n [])"
    using req net by (simp add: settings_new_Inr_iff)
  with om show ?thesis by auto
qed

text \<open>
  C27 (functional). Duplicate keys reach the settings with last-write-wins: the
  login-shell flag is set exactly when the last \<open>login_shell\<close> entry of the
  host array has the value \<open>true\<close>, whatever earlier entries said.
\<close>

theorem host_array_login_shell_last_wins:
  assumes "\<forall>x \<in> set (xs @ (''login_shell'' @ OPTIONS_SEPARATOR # v) # ys). NUL \<notin> set x"
    and "\<forall>x \<in> set ys. fst (parse_option x) \<noteq> ''login_shell''"
    and "option_map_new (host_array (xs @ (''login_shell'' @ OPTIONS_SEPARATOR # v) # ys)) = Some om"
    and "settings_new parse_addr om = Inr s"
  shows "login_shell s \<longleftrightarrow> v = ''true''"
proof -
  have sep: "OPTIONS_SEPARATOR \<notin> set ''login_shell''" by (simp add: OPTIONS_SEPARATOR_def)
  have "options_abs (xs @ (''login_shell'' @ OPTIONS_SEPARATOR # v) # ys) ''login_shell'' = Some v"
    using sep assms(2) by (rule options_abs_last)
  then have "get_str om ''login_shell'' = (if utf8_valid v then Some v else None)"
    using get_str_host [OF assms(1,3)] by simp
  moreover have "utf8_valid ''true''" by simp
  moreover have "login_shell s \<longleftrightarrow> get_str om ''login_shell'' = Some ''true''"
    using assms(4) by (auto simp: settings_new_Inr_iff)
  ultimately show ?thesis by auto
qed

text \<open>
  C25 (functional). An empty token drops the whole address list: when
  \<open>network_addrs\<close> holds printed address/mask tokens followed by one more
  space, the empty last segment fails to parse as an address, the list
  coercion fails, and the constructed \<open>Settings\<close> has no addresses at all,
  although every token before the space is valid.
\<close>

theorem settings_trailing_space_drops_addrs:
  assumes s: "settings_new ip_addr_from_str om = Inr s"
    and v: "get_str om ''network_addrs''
              = Some (join_with NET_ADDR_SEPARATOR (map net_addr_to_string nas) @ [NET_ADDR_SEPARATOR])"
  shows "network_addrs s = []"
proof -
  let ?v = "join_with NET_ADDR_SEPARATOR (map net_addr_to_string nas) @ [NET_ADDR_SEPARATOR]"
  have empty: "net_addr_from_sudo_option ip_addr_from_str [] = Inl (Parse_failed Addr_invalid)"
    by (simp add: net_addr_from_sudo_option_def ip_parser_defs)
  have "\<exists>pre post. split_on NET_ADDR_SEPARATOR ?v = pre @ [] # post
          \<and> list_all (\<lambda>x. \<not> isl (net_addr_from_sudo_option ip_addr_from_str x)) pre"
  proof (cases "nas = []")
    case True
    then show ?thesis by (intro exI [of _ "[]"] exI [of _ "[[]]"]) simp
  next
    case False
    then have "split_on NET_ADDR_SEPARATOR ?v = map net_addr_to_string nas @ [] # []"
      using net_addr_to_string_parse by (simp add: split_on_join_with_snoc)
    then show ?thesis
      by (intro exI [of _ "map net_addr_to_string nas"] exI [of _ "[]"])
        (simp add: list_all_iff net_addr_to_string_parse)
  qed
  then have "net_addrs_from_sudo_option ip_addr_from_str ?v = Inl (Parse_failed Addr_invalid)"
    using empty unfolding net_addrs_from_sudo_option_def from_sudo_option_list_Inl_iff by blast
  then have "get (net_addrs_from_sudo_option ip_addr_from_str) om ''network_addrs''
      = Inl (Unparsable_option ''network_addrs'')"
    using v by (simp add: get_def)
  then show ?thesis
    using s by (auto simp: settings_new_Inr_iff net_addrs_unwrap)
qed

subsection \<open>Witnesses\<close>

lemma host_array_settings_witness:
  "\<exists>om s. option_map_new (host_array [''plugin_dir=/x'', ''plugin_path=/x/p'', ''progname=sudo'']) = Some om
     \<and> settings_new ip_addr_from_str om = Inr s
     \<and> plugin_dir s = ''/x'' \<and> plugin_path s = ''/x/p'' \<and> progname s = ''sudo'' \<and> network_addrs s = []
     \<and> raw s = om"
proof (rule host_array_settings)
  show "\<forall>x \<in> set [''plugin_dir=/x'', ''plugin_path=/x/p'', ''progname=sudo'']. NUL \<notin> set x"
    by (simp add: NUL_def)
qed (simp_all add: options_abs_def parse_option_def OPTIONS_SEPARATOR_def)

lemma host_array_login_shell_last_wins_witness:
  "\<not> login_shell (settings_of
       (OptionMap (options_abs [''progname=sudo'', ''login_shell=true'', ''plugin_dir=/x'',
          ''plugin_path=/x/p'', ''login_shell=false'']))
       ''/x'' ''/x/p'' ''sudo'' ([] :: ip_addr net_addr list))"
proof -
  let ?opts = "[''progname=sudo'', ''login_shell=true'', ''plugin_dir=/x'', ''plugin_path=/x/p'',
                ''login_shell=false'']"
  let ?om = "OptionMap (options_abs ?opts)"
  let ?s = "settings_of ?om ''/x'' ''/x/p'' ''sudo'' ([] :: ip_addr net_addr list)"
  have eq: "?opts = [''progname=sudo'', ''login_shell=true'', ''plugin_dir=/x'', ''plugin_path=/x/p'']
              @ (''login_shell'' @ OPTIONS_SEPARATOR # ''false'') # []"
    by (simp add: OPTIONS_SEPARATOR_def)
  have h1: "\<forall>x \<in> set ([''progname=sudo'', ''login_shell=true'', ''plugin_dir=/x'', ''plugin_path=/x/p'']
              @ (''login_shell'' @ OPTIONS_SEPARATOR # ''false'') # []). NUL \<notin> set x"
    by (simp add: NUL_def OPTIONS_SEPARATOR_def)
  have h2: "\<forall>x \<in> set []. fst (parse_option x) \<noteq> ''login_shell''" by simp
  have h3: "option_map_new (host_array ([''progname=sudo'', ''login_shell=true'', ''plugin_dir=/x'',
              ''plugin_path=/x/p''] @ (''login_shell'' @ OPTIONS_SEPARATOR # ''false'') # [])) = Some ?om"
    using h1 eq by (simp add: option_map_new_host)
  have h4: "settings_new ip_addr_from_str ?om = Inr ?s"
    by (simp add: settings_new_Inr_iff get_def get_str_def options_abs_def parse_option_def
        OPTIONS_SEPARATOR_def)
  show ?thesis
    using host_array_login_shell_last_wins [OF h1 h2 h3 h4] by simp
qed

lemma settings_trailing_space_drops_addrs_witness:
  "network_addrs (settings_of (OptionMap [''plugin_dir'' \<mapsto> ''/x'', ''plugin_path'' \<mapsto> ''/x/p'',
       ''progname'' \<mapsto> ''sudo'', ''network_addrs'' \<mapsto> ''10.0.0.0/255.0.0.0 ''])
     ''/x'' ''/x/p'' ''sudo'' ([] :: ip_addr net_addr list)) = []"
proof (rule settings_trailing_space_drops_addrs
    [where nas = "[\<lparr>addr = V4 (Ipv4Addr 10 0 0 0), mask' = V4 (Ipv4Addr 255 0 0 0)\<rparr>]"])
  let ?om = "OptionMap [''plugin_dir'' \<mapsto> ''/x'', ''plugin_path'' \<mapsto> ''/x/p'',
       ''progname'' \<mapsto> ''sudo'', ''network_addrs'' \<mapsto> ''10.0.0.0/255.0.0.0 '']"
  have "get (net_addrs_from_sudo_option ip_addr_from_str) ?om ''network_addrs''
      = Inl (Unparsable_option ''network_addrs'')"
    by (simp add: get_def get_str_def net_addrs_from_sudo_option_def from_sudo_option_list_def
        net_addr_from_sudo_option_def ip_parser_defs NET_ADDR_SEPARATOR_def)
  then show "settings_new ip_addr_from_str ?om = Inr (settings_of ?om ''/x'' ''/x/p'' ''sudo'' [])"
    by (simp add: settings_new_Inr_iff net_addrs_unwrap get_str_def is_panic_def)
  show "get_str ?om ''network_addrs'' = Some (join_with NET_ADDR_SEPARATOR (map net_addr_to_string
      [\<lparr>addr = V4 (Ipv4Addr 10 0 0 0), mask' = V4 (Ipv4Addr 255 0 0 0)\<rparr>]) @ [NET_ADDR_SEPARATOR])"
    by (simp add: get_str_def net_addr_to_string_def NET_ADDR_SEPARATOR_def dec_string.simps
        char_of_eq_iff eq_commute [of _ "char_of n" for n])
qed

end
